theory Spec2Isabelle
  imports Complex_Main "HOL-Library.Sublist"
begin

section \<open>Python values used by the orchestration engine\<close>

text \<open>
  A Python \<open>str\<close> is modelled as a \<open>string\<close>, one \<open>char\<close> for one code point (the code
  points below 256). The string operations of the source are written out as recursive
  functions: \<open>str.strip\<close>, \<open>str.lower\<close>, \<open>str.startswith\<close>, \<open>sub in s\<close>, \<open>str.find\<close>,
  \<open>str.rfind\<close>, \<open>str.split\<close> and slicing.
\<close>

definition is_space :: "char \<Rightarrow> bool" where
  \<comment> \<open>\<open>str.isspace\<close> on one code point below 256\<close>
  "is_space c = ((of_char c :: nat) \<in> {9, 10, 11, 12, 13, 28, 29, 30, 31, 32, 133, 160})"

definition lstrip :: "string \<Rightarrow> string" where
  "lstrip s = dropWhile is_space s"

definition rstrip :: "string \<Rightarrow> string" where
  "rstrip s = rev (dropWhile is_space (rev s))"

definition strip :: "string \<Rightarrow> string" where
  "strip s = rstrip (lstrip s)"

definition lower_char :: "char \<Rightarrow> char" where
  \<comment> \<open>\<open>A\<close>..\<open>Z\<close> and the upper-case letters of the range 192..222 (215 is the times sign)\<close>
  "lower_char c =
     (let n = (of_char c :: nat)
      in if (65 \<le> n \<and> n \<le> 90) \<or> (192 \<le> n \<and> n \<le> 222 \<and> n \<noteq> 215)
         then char_of (n + 32) else c)"

definition lower :: "string \<Rightarrow> string" where
  "lower s = map lower_char s"

definition startswith :: "string \<Rightarrow> string \<Rightarrow> bool" where
  "startswith s p = (take (length p) s = p)"

fun str_find :: "string \<Rightarrow> string \<Rightarrow> int" where
  \<comment> \<open>\<open>s.find(sub)\<close>: the lowest index where \<open>sub\<close> starts, or -1\<close>
  "str_find [] sub = (if sub = [] then 0 else - 1)"
| "str_find (c # cs) sub =
     (if startswith (c # cs) sub then 0
      else (let r = str_find cs sub in if r < 0 then - 1 else r + 1))"

fun str_rfind :: "string \<Rightarrow> string \<Rightarrow> int" where
  \<comment> \<open>\<open>s.rfind(sub)\<close>: the highest index where \<open>sub\<close> starts, or -1\<close>
  "str_rfind [] sub = (if sub = [] then 0 else - 1)"
| "str_rfind (c # cs) sub =
     (let r = str_rfind cs sub
      in if 0 \<le> r then r + 1 else if startswith (c # cs) sub then 0 else - 1)"

definition contains :: "string \<Rightarrow> string \<Rightarrow> bool" where
  \<comment> \<open>\<open>sub in s\<close>\<close>
  "contains s sub = (0 \<le> str_find s sub)"

definition slice :: "'a list \<Rightarrow> int \<Rightarrow> int \<Rightarrow> 'a list" where
  \<comment> \<open>\<open>s[start:end]\<close> for indices that are not negative\<close>
  "slice s start end = take (nat end - nat start) (drop (nat start) s)"

lemma str_find_bound:
  "0 \<le> str_find s sub \<Longrightarrow> nat (str_find s sub) + length sub \<le> length s"
proof (induction s)
  case Nil
  then show ?case by (simp split: if_splits)
next
  case (Cons c cs)
  show ?case
  proof (cases "startswith (c # cs) sub")
    case True
    then have "length (take (length sub) (c # cs)) = length sub"
      unfolding startswith_def by simp
    then have "length sub \<le> length (c # cs)"
      by simp
    with True show ?thesis by simp
  next
    case False
    with Cons.prems have nn: "0 \<le> str_find cs sub"
      by (simp add: Let_def split: if_splits)
    with Cons.IH have "nat (str_find cs sub) + length sub \<le> length cs" by simp
    with False nn show ?thesis by (simp add: Let_def nat_add_distrib)
  qed
qed

function str_split :: "string \<Rightarrow> string \<Rightarrow> string list" where
  \<comment> \<open>\<open>s.split(sep)\<close> for a separator that is not empty (every separator of the source
      is a literal); Python raises ValueError on the empty separator\<close>
  "str_split s sep =
     (if sep = [] then [s]
      else (let i = str_find s sep
            in if i < 0 then [s]
               else take (nat i) s # str_split (drop (nat i + length sep) s) sep))"
  by pat_completeness auto
termination
proof (relation "measure (\<lambda>(s, sep). length s)")
  show "wf (measure (\<lambda>(s, sep). length s))" by simp
next
  fix s sep :: string and i :: int
  assume ne: "sep \<noteq> []" and i: "i = str_find s sep" and nn: "\<not> i < 0"
  from nn i have "nat i + length sep \<le> length s"
    using str_find_bound [of s sep] by simp
  moreover from ne have "0 < length sep" by simp
  ultimately have "length s - (nat i + length sep) < length s"
    by arith
  then show "((drop (nat i + length sep) s, sep), (s, sep)) \<in> measure (\<lambda>(s, sep). length s)"
    by simp
qed

declare str_split.simps [simp del]

text \<open>
  A decoded JSON text, and more generally a Python value held in a dictionary of the
  run state (\<open>Dict[str, Any]\<close>): \<open>None\<close>, a bool, an int, a float, a str, a list or a
  dict with string keys.
\<close>

datatype json =
    JNull
  | JBool bool
  | JInt int
  | JFloat real
  | JStr string
  | JArr "json list"
  | JObj "(string \<times> json) list"

fun truthy :: "json \<Rightarrow> bool" where
  \<comment> \<open>the truth value Python gives a value in \<open>if v:\<close> and \<open>a and b\<close>\<close>
  "truthy JNull = False"
| "truthy (JBool b) = b"
| "truthy (JInt n) = (n \<noteq> 0)"
| "truthy (JFloat x) = (x \<noteq> 0)"
| "truthy (JStr s) = (s \<noteq> [])"
| "truthy (JArr xs) = (xs \<noteq> [])"
| "truthy (JObj kvs) = (kvs \<noteq> [])"

definition dict_get :: "(string \<times> json) list \<Rightarrow> string \<Rightarrow> json \<Rightarrow> json" where
  \<comment> \<open>\<open>d.get(key, default)\<close>\<close>
  "dict_get d k dflt = (case map_of d k of None \<Rightarrow> dflt | Some v \<Rightarrow> v)"

text \<open>Exceptions: the class of the exception and the text \<open>str(e)\<close> gives.\<close>

datatype exc_type =
    JSONDecodeError | IndexError | KeyError | AttributeError | TypeError
  | TimeoutError | CircuitOpenError | OtherError string

datatype py_exception = PyExc (exc_class: exc_type) (exc_str: string)

section \<open>Run state (src/agent/state.py)\<close>

datatype message = SystemMessage string | HumanMessage string | AIMessage string

record tool_result =
  tool_name :: string
  input :: "(string \<times> json) list"
  output_text :: string
  success :: bool
  execution_time_ms :: real
  timestamp :: string

record memory_item =
  mem_role :: string
  mem_content :: string
  mem_timestamp :: string
  mem_agent :: "string option"

text \<open>
  \<open>AgentState\<close> is a dictionary. A key the source reads with \<open>state.get\<close> is an optional
  field here (\<open>None\<close>: the key is absent, or holds \<open>None\<close>); \<open>messages\<close>, which the nodes
  read with \<open>state["messages"]\<close>, is always there. The keys \<open>task\<close>, \<open>file_context\<close> and
  \<open>metadata\<close>, which no node reads or returns, are left out.
\<close>

record agent_state =
  messages :: "message list"
  next_step :: "string option"
  repo_map :: "string option"
  current_agent :: "string option"
  iteration_count :: "int option"
  max_iterations :: "int option"
  tool_results :: "tool_result list option"
  memory :: "memory_item list option"
  reflection :: "string option"
  plan :: "string option"
  error_context :: "(string \<times> json) list option"

definition get_or :: "'a option \<Rightarrow> 'a \<Rightarrow> 'a" where
  \<comment> \<open>\<open>state.get(key, default)\<close>\<close>
  "get_or v dflt = (case v of None \<Rightarrow> dflt | Some x \<Rightarrow> x)"

definition add_tool_result ::
  "agent_state \<Rightarrow> string \<Rightarrow> (string \<times> json) list \<Rightarrow> string \<Rightarrow> bool \<Rightarrow> real \<Rightarrow> string
     \<Rightarrow> tool_result list" where
  \<comment> \<open>the last argument is the reading \<open>datetime.now().isoformat()\<close>\<close>
  "add_tool_result state name tool_input out ok ms now =
     get_or (tool_results state) [] @
       [\<lparr>tool_name = name, input = tool_input, output_text = out, success = ok,
         execution_time_ms = ms, timestamp = now\<rparr>]"

definition add_memory ::
  "agent_state \<Rightarrow> string \<Rightarrow> string \<Rightarrow> string option \<Rightarrow> string \<Rightarrow> memory_item list" where
  "add_memory state r c a now =
     get_or (memory state) [] @
       [\<lparr>mem_role = r, mem_content = c, mem_timestamp = now, mem_agent = a\<rparr>]"

definition fatal_flag :: "(string \<times> json) list option \<Rightarrow> bool" where
  \<comment> \<open>\<open>state.get("error_context") and state["error_context"].get("fatal", False)\<close>\<close>
  "fatal_flag ec =
     (case ec of None \<Rightarrow> False
      | Some d \<Rightarrow> d \<noteq> [] \<and> truthy (dict_get d ''fatal'' (JBool False)))"

definition should_continue :: "agent_state \<Rightarrow> bool" where
  "should_continue state =
     (if get_or (iteration_count state) 0 \<ge> get_or (max_iterations state) 25 then False
      else if next_step state = Some ''FINISH'' then False
      else if fatal_flag (error_context state) then False
      else True)"

section \<open>Collaborators outside the engine\<close>

text \<open>
  The language model, the clock, the JSON decoder of the Python library and the tool
  functions are not part of the engine. They are the fields of an environment; those
  with an effect take the world \<open>'w\<close> and return it. A call that raises returns \<open>Inl\<close>.
  The prompt texts of src/agent/prompts.py and the two marks of the tool summary
  (code points above 255) are fields as well. Logging is left out.
\<close>

record 'w env =
  llm_invoke :: "message list \<Rightarrow> 'w \<Rightarrow> (py_exception + string) \<times> 'w"
  json_loads :: "string \<Rightarrow> py_exception + json"
  sleep :: "real \<Rightarrow> 'w \<Rightarrow> 'w"
  time_time :: "'w \<Rightarrow> real \<times> 'w"
  now_isoformat :: "'w \<Rightarrow> string \<times> 'w"
  read_file :: "json \<Rightarrow> 'w \<Rightarrow> (py_exception + string) \<times> 'w"
  write_file :: "json \<Rightarrow> json \<Rightarrow> 'w \<Rightarrow> (py_exception + string) \<times> 'w"
  list_dir :: "json \<Rightarrow> 'w \<Rightarrow> (py_exception + string) \<times> 'w"
  run_command_sync :: "json \<Rightarrow> json \<Rightarrow> 'w \<Rightarrow> (py_exception + string) \<times> 'w"
  py_format :: "json \<Rightarrow> string"
  SUPERVISOR_PROMPT :: string
  PLANNER_PROMPT :: string
  RESEARCHER_PROMPT :: string
  CODER_PROMPT :: string
  REVIEWER_PROMPT :: string
  mark_ok :: string
  mark_fail :: string

section \<open>Retry with backoff (src/agent/nodes.py)\<close>

function retry_attempts ::
  "(real \<Rightarrow> 'w \<Rightarrow> 'w) \<Rightarrow> ('w \<Rightarrow> (py_exception + 'a) \<times> 'w) \<Rightarrow> int \<Rightarrow> real \<Rightarrow> real
     \<Rightarrow> int \<Rightarrow> py_exception option \<Rightarrow> 'w \<Rightarrow> (py_exception + 'a) \<times> 'w" where
  \<comment> \<open>the loop \<open>for attempt in range(max_retries)\<close> from \<open>attempt\<close> on, and the
      \<open>raise last_exception\<close> after it\<close>
  "retry_attempts slp func max_retries base_delay max_delay attempt last_exception w =
     (if attempt < max_retries then
        (case func w of
           (Inr v, w1) \<Rightarrow> (Inr v, w1)
         | (Inl e, w1) \<Rightarrow>
             if attempt = max_retries - 1 then (Inl e, w1)
             else retry_attempts slp func max_retries base_delay max_delay (attempt + 1) (Some e)
                    (slp (min (base_delay * 2 ^ nat attempt) max_delay) w1))
      else (case last_exception of
              None \<Rightarrow> (Inl (PyExc TypeError ''exceptions must derive from BaseException''), w)
            | Some e \<Rightarrow> (Inl e, w)))"
  by pat_completeness auto
termination
  by (relation "measure (\<lambda>(slp, func, max_retries, base_delay, max_delay, attempt, last_exception, w).
        nat (max_retries - attempt))") auto

declare retry_attempts.simps [simp del]

definition retry_with_backoff ::
  "(real \<Rightarrow> 'w \<Rightarrow> 'w) \<Rightarrow> ('w \<Rightarrow> (py_exception + 'a) \<times> 'w) \<Rightarrow> int \<Rightarrow> real \<Rightarrow> real
     \<Rightarrow> 'w \<Rightarrow> (py_exception + 'a) \<times> 'w" where
  "retry_with_backoff slp func max_retries base_delay max_delay w =
     retry_attempts slp func max_retries base_delay max_delay 0 None w"

definition call_llm :: "'w env \<Rightarrow> message list \<Rightarrow> 'w \<Rightarrow> (py_exception + string) \<times> 'w" where
  \<comment> \<open>\<open>retry_with_backoff(lambda: llm.invoke(msgs))\<close> with the default arguments; the
      result is \<open>response.content\<close>\<close>
  "call_llm E msgs w = retry_with_backoff (sleep E) (llm_invoke E msgs) 3 1 30 w"

section \<open>Supervisor node (src/agent/nodes.py)\<close>

text \<open>What a node returns: a dictionary holding some of the keys of the run state.\<close>

record state_update =
  upd_messages :: "message list option"
  upd_next_step :: "string option"
  upd_current_agent :: "string option"
  upd_iteration_count :: "int option"
  upd_tool_results :: "tool_result list option"
  upd_memory :: "memory_item list option"
  upd_reflection :: "string option"
  upd_plan :: "string option"
  upd_error_context :: "(string \<times> json) list option"

definition no_update :: state_update where
  "no_update = \<lparr>upd_messages = None, upd_next_step = None, upd_current_agent = None,
     upd_iteration_count = None, upd_tool_results = None, upd_memory = None,
     upd_reflection = None, upd_plan = None, upd_error_context = None\<rparr>"

fun str_join :: "string \<Rightarrow> string list \<Rightarrow> string" where
  \<comment> \<open>\<open>sep.join(parts)\<close>\<close>
  "str_join sep [] = []"
| "str_join sep [x] = x"
| "str_join sep (x # y # ys) = x @ sep @ str_join sep (y # ys)"

fun first_agent :: "string \<Rightarrow> string list \<Rightarrow> string \<Rightarrow> string" where
  \<comment> \<open>\<open>for agent in agents: if agent in decision: next_step = agent; break\<close>\<close>
  "first_agent decision [] nxt = nxt"
| "first_agent decision (a # agents) nxt =
     (if contains decision a then a else first_agent decision agents nxt)"

definition parse_decision :: "string \<Rightarrow> string" where
  \<comment> \<open>the routing decision from \<open>decision = response.content.strip().lower()\<close>\<close>
  "parse_decision decision =
     (let agents = [''planner'', ''researcher'', ''coder'', ''reviewer''];
          next_step = first_agent decision agents ''coder''
      in if contains decision ''finish'' then ''FINISH'' else next_step)"

definition supervisor_context :: "'w env \<Rightarrow> agent_state \<Rightarrow> string" where
  "supervisor_context E state =
     (let context_parts =
            (case plan state of
               Some p \<Rightarrow> if p \<noteq> [] then [''Current Plan:'' @ [CHR 0x0A] @ p] else []
             | None \<Rightarrow> []) @
            (case tool_results state of
               Some ts \<Rightarrow>
                 if ts \<noteq> [] then
                   [''Recent Tool Results:'' @ [CHR 0x0A] @
                      str_join [CHR 0x0A]
                        (map (\<lambda>t. ''- '' @ tool_name t @ '': '' @
                                    (if success t then mark_ok E else mark_fail E))
                           (drop (length ts - 3) ts))]
                 else []
             | None \<Rightarrow> [])
      in if context_parts \<noteq> [] then str_join [CHR 0x0A, CHR 0x0A] context_parts else [])"

definition supervisor_messages :: "'w env \<Rightarrow> agent_state \<Rightarrow> message list" where
  \<comment> \<open>\<open>invoke_messages\<close>: the system prompt, the context when there is one, the history\<close>
  "supervisor_messages E state =
     (let context = supervisor_context E state
      in [SystemMessage (SUPERVISOR_PROMPT E)] @
         (if context \<noteq> [] then [HumanMessage (''Context:'' @ [CHR 0x0A] @ context)]
          else []) @
         messages state)"

definition supervisor_node :: "'w env \<Rightarrow> agent_state \<Rightarrow> 'w \<Rightarrow> state_update \<times> 'w" where
  "supervisor_node E state w =
     (let iteration = get_or (iteration_count state) 0
      in if iteration \<ge> get_or (max_iterations state) 25 then
           (no_update\<lparr>upd_next_step := Some ''FINISH'',
                       upd_iteration_count := Some (iteration + 1)\<rparr>, w)
         else
           (let invoke_messages = supervisor_messages E state
            in case call_llm E invoke_messages w of
                 (Inr response, w1) \<Rightarrow>
                   (let decision = lower (strip response);
                        next_step = parse_decision decision
                    in (no_update\<lparr>upd_next_step := Some next_step,
                                    upd_current_agent := Some ''supervisor'',
                                    upd_iteration_count := Some (iteration + 1)\<rparr>, w1))
               | (Inl e, w1) \<Rightarrow>
                   (no_update\<lparr>upd_next_step := Some ''FINISH'',
                               upd_iteration_count := Some (iteration + 1),
                               upd_error_context :=
                                 Some [(''agent'', JStr ''supervisor''),
                                       (''error'', JStr (exc_str e)),
                                       (''fatal'', JBool False)]\<rparr>, w1)))"

section \<open>Floating-point numbers (binary64)\<close>

text \<open>
  A Python \<open>float\<close> is an IEEE 754 binary64 number: 53 significant bits, the unit in the
  last place never below \<open>2\<^sup>-\<^sup>1\<^sup>0\<^sup>7\<^sup>4\<close>. A finite double is modelled by the real number it
  stands for, and each arithmetic operation returns the exact result rounded to the nearest
  double, ties to the even significand, as the hardware does. A result beyond the largest
  finite double, which Python stores as \<open>inf\<close>, is outside this model.
\<close>

function scale_down :: "real \<Rightarrow> int \<Rightarrow> real \<times> int" where
  \<comment> \<open>halve until the significand is below \<open>2\<^sup>5\<^sup>3\<close>, counting the exponent up\<close>
  "scale_down a e = (if 2 ^ 53 \<le> a then scale_down (a / 2) (e + 1) else (a, e))"
  by pat_completeness auto
termination
proof (relation "measure (\<lambda>(a, e). nat \<lceil>a\<rceil>)")
  show "wf (measure (\<lambda>(a, e). nat \<lceil>a\<rceil>))" by simp
next
  fix a :: real and e :: int
  assume big: "2 ^ 53 \<le> a"
  have "\<lceil>a / 2\<rceil> < a / 2 + 1" by linarith
  also have "\<dots> \<le> a" using big by simp
  also have "a \<le> \<lceil>a\<rceil>" by linarith
  finally have "\<lceil>a / 2\<rceil> < \<lceil>a\<rceil>" by simp
  moreover have "0 < \<lceil>a\<rceil>" using big by (simp add: ceiling_less_iff less_ceiling_iff)
  ultimately show "((a / 2, e + 1), (a, e)) \<in> measure (\<lambda>(a, e). nat \<lceil>a\<rceil>)" by simp
qed

function scale_up :: "real \<Rightarrow> int \<Rightarrow> real \<times> int" where
  \<comment> \<open>double until the significand reaches \<open>2\<^sup>5\<^sup>2\<close> or the exponent its minimum (a
      subnormal number)\<close>
  "scale_up a e = (if a < 2 ^ 52 \<and> - 1074 < e then scale_up (2 * a) (e - 1) else (a, e))"
  by pat_completeness auto
termination by (relation "measure (\<lambda>(a, e). nat (e + 1074))") auto

declare scale_down.simps [simp del] scale_up.simps [simp del]

definition round_half_even :: "real \<Rightarrow> int" where
  "round_half_even a =
     (let f = \<lfloor>a\<rfloor>; r = a - of_int f
      in if r < 1 / 2 then f else if 1 / 2 < r then f + 1 else if even f then f else f + 1)"

definition round_pos :: "real \<Rightarrow> real" where
  "round_pos a =
     (case scale_down a 0 of (a1, e1) \<Rightarrow>
      case scale_up a1 e1 of (a2, e2) \<Rightarrow> of_int (round_half_even a2) * 2 powi e2)"

definition binary64 :: "real \<Rightarrow> real" where
  \<comment> \<open>the double nearest to a real number\<close>
  "binary64 x = (if x < 0 then - round_pos (- x) else round_pos x)"


definition float_sub :: "real \<Rightarrow> real \<Rightarrow> real" where
  "float_sub x y = binary64 (x - y)"









section \<open>Token bucket and rate limiter (src/middleware/rate_limiter.py)\<close>









section \<open>Circuit breaker (src/services/circuit_breaker.py)\<close>

datatype circuit_state = CLOSED | OPEN | HALF_OPEN

record circuit_breaker_config =
  failure_threshold :: int
  success_threshold :: int
  timeout_seconds :: real
  call_timeout :: real

record circuit_breaker =
  name :: string
  config :: circuit_breaker_config
  cstate :: circuit_state
  failure_count :: int
  success_count :: int
  last_failure_time :: real
  last_state_change :: real

definition default_config :: circuit_breaker_config where
  "default_config =
     \<lparr>failure_threshold = 5, success_threshold = 2, timeout_seconds = 30, call_timeout = 10\<rparr>"

definition new_circuit_breaker :: "string \<Rightarrow> circuit_breaker_config \<Rightarrow> real \<Rightarrow> circuit_breaker" where
  \<comment> \<open>\<open>CircuitBreaker(name, config)\<close>; \<open>last_state_change\<close> is the clock at creation\<close>
  "new_circuit_breaker n cfg now =
     \<lparr>name = n, config = cfg, cstate = CLOSED, failure_count = 0, success_count = 0,
      last_failure_time = 0, last_state_change = now\<rparr>"

definition check_state_transition :: "circuit_breaker \<Rightarrow> real \<Rightarrow> real \<Rightarrow> circuit_breaker" where
  "check_state_transition cb now now_change =
     (if cstate cb = OPEN then
        (let time_since_failure = now - last_failure_time cb
         in if time_since_failure \<ge> timeout_seconds (config cb)
            then cb\<lparr>cstate := HALF_OPEN, success_count := 0, last_state_change := now_change\<rparr>
            else cb)
      else cb)"

definition record_success :: "circuit_breaker \<Rightarrow> real \<Rightarrow> circuit_breaker" where
  "record_success cb now =
     (if cstate cb = HALF_OPEN then
        (let cb1 = cb\<lparr>success_count := success_count cb + 1\<rparr>
         in if success_count cb1 \<ge> success_threshold (config cb1)
            then cb1\<lparr>cstate := CLOSED, failure_count := 0, last_state_change := now\<rparr>
            else cb1)
      else if cstate cb = CLOSED then
        cb\<lparr>failure_count := max 0 (failure_count cb - 1)\<rparr>
      else cb)"

definition record_failure :: "circuit_breaker \<Rightarrow> real \<Rightarrow> real \<Rightarrow> circuit_breaker" where
  "record_failure cb now now_change =
     (let cb1 = cb\<lparr>failure_count := failure_count cb + 1, last_failure_time := now\<rparr>
      in if cstate cb1 = HALF_OPEN then
           cb1\<lparr>cstate := OPEN, last_state_change := now_change\<rparr>
         else if cstate cb1 = CLOSED then
           (if failure_count cb1 \<ge> failure_threshold (config cb1)
            then cb1\<lparr>cstate := OPEN, last_state_change := now_change\<rparr>
            else cb1)
         else cb1)"

definition circuit_open_error :: "circuit_breaker \<Rightarrow> py_exception" where
  "circuit_open_error cb =
     PyExc CircuitOpenError (''Circuit '' @ [CHR 0x27] @ name cb @ [CHR 0x27] @
                             '' is open. Service unavailable.'')"

definition call ::
  "circuit_breaker \<Rightarrow> ('w \<Rightarrow> (py_exception + 'a) \<times> 'w) \<Rightarrow> real \<Rightarrow> real \<Rightarrow> real \<Rightarrow> real \<Rightarrow> 'w
     \<Rightarrow> (py_exception + 'a) \<times> circuit_breaker \<times> 'w" where
  \<comment> \<open>\<open>func\<close> is the wrapped call under \<open>asyncio.wait_for\<close>: it returns, or raises (a
      timeout raises TimeoutError). The readings: two for the check, two for the record.\<close>
  "call cb func now now_change now_record now_record_change w =
     (let cb1 = check_state_transition cb now now_change
      in if cstate cb1 = OPEN then (Inl (circuit_open_error cb1), cb1, w)
         else (case func w of
                 (Inr result, w1) \<Rightarrow> (Inr result, record_success cb1 now_record, w1)
               | (Inl e, w1) \<Rightarrow> (Inl e, record_failure cb1 now_record now_record_change, w1)))"

fun record_failures :: "circuit_breaker \<Rightarrow> (real \<times> real) list \<Rightarrow> circuit_breaker" where
  \<comment> \<open>consecutive recorded failures, one for each pair of clock readings\<close>
  "record_failures cb [] = cb"
| "record_failures cb ((t, t') # ts) = record_failures (record_failure cb t t') ts"

fun record_successes :: "circuit_breaker \<Rightarrow> real list \<Rightarrow> circuit_breaker" where
  "record_successes cb [] = cb"
| "record_successes cb (t # ts) = record_successes (record_success cb t) ts"

section \<open>Retry as the specification words it\<close>

text \<open>
  The specification describes the retry by its attempts: attempt \<open>k\<close> runs after the
  attempts before it have failed, each followed by the wait \<open>min(base_delay * 2^j, max_delay)\<close>.
\<close>

fun world_before ::
  "(real \<Rightarrow> 'w \<Rightarrow> 'w) \<Rightarrow> ('w \<Rightarrow> (py_exception + 'a) \<times> 'w) \<Rightarrow> real \<Rightarrow> real \<Rightarrow> 'w \<Rightarrow> nat \<Rightarrow> 'w" where
  \<comment> \<open>the world in which attempt \<open>k\<close> (from 0) starts\<close>
  "world_before slp func base_delay max_delay w 0 = w"
| "world_before slp func base_delay max_delay w (Suc k) =
     slp (min (base_delay * 2 ^ k) max_delay)
       (snd (func (world_before slp func base_delay max_delay w k)))"

definition attempt_outcome ::
  "(real \<Rightarrow> 'w \<Rightarrow> 'w) \<Rightarrow> ('w \<Rightarrow> (py_exception + 'a) \<times> 'w) \<Rightarrow> real \<Rightarrow> real \<Rightarrow> 'w \<Rightarrow> nat
     \<Rightarrow> (py_exception + 'a) \<times> 'w" where
  \<comment> \<open>what attempt \<open>k\<close> returns or raises, and the world it leaves\<close>
  "attempt_outcome slp func base_delay max_delay w k =
     func (world_before slp func base_delay max_delay w k)"

definition first_success ::
  "(real \<Rightarrow> 'w \<Rightarrow> 'w) \<Rightarrow> ('w \<Rightarrow> (py_exception + 'a) \<times> 'w) \<Rightarrow> real \<Rightarrow> real \<Rightarrow> 'w \<Rightarrow> nat \<Rightarrow> nat
     \<Rightarrow> nat option" where
  \<comment> \<open>the first attempt among \<open>a\<close>, ..., \<open>n - 1\<close> that returns\<close>
  "first_success slp func base_delay max_delay w a n =
     List.find (\<lambda>k. \<not> isl (fst (attempt_outcome slp func base_delay max_delay w k))) [a..<n]"

section \<open>Response parser (src/agent/nodes.py)\<close>

text \<open>
  The outcome of the body of a \<open>try\<close> block: \<open>None\<close> when the block ends without a
  \<open>return\<close>, \<open>Some (Inr v)\<close> when it returns \<open>v\<close>, \<open>Some (Inl e)\<close> when it raises \<open>e\<close>.
  An \<open>except\<close> clause that ends in \<open>pass\<close> turns the exceptions of the classes it names
  into the first outcome and lets the others through.
\<close>

definition except_pass ::
  "exc_type list \<Rightarrow> (py_exception + 'a) option \<Rightarrow> (py_exception + 'a) option" where
  "except_pass classes body =
     (case body of
        Some (Inl e) \<Rightarrow> if exc_class e \<in> set classes then None else Some (Inl e)
      | _ \<Rightarrow> body)"

definition list_index :: "'a list \<Rightarrow> nat \<Rightarrow> py_exception + 'a" where
  \<comment> \<open>\<open>xs[i]\<close> for an index that is not negative\<close>
  "list_index xs i =
     (if i < length xs then Inr (xs ! i) else Inl (PyExc IndexError ''list index out of range''))"

definition fenced_text :: "string \<Rightarrow> string \<Rightarrow> py_exception + string" where
  \<comment> \<open>\<open>content.split(opening)[1].split("```")[0].strip()\<close>\<close>
  "fenced_text content opening =
     (case list_index (str_split content opening) 1 of
        Inl e \<Rightarrow> Inl e
      | Inr after \<Rightarrow>
          (case list_index (str_split after ''```'') 0 of
             Inl e \<Rightarrow> Inl e
           | Inr inner \<Rightarrow> Inr (strip inner)))"

definition parse_json_action ::
  "(string \<Rightarrow> py_exception + json) \<Rightarrow> string \<Rightarrow> py_exception + json" where
  \<comment> \<open>\<open>loads\<close> is \<open>json.loads\<close>; the value \<open>None\<close> is \<open>JNull\<close>\<close>
  "parse_json_action loads content =
     (case except_pass [JSONDecodeError]
             (if startswith (strip content) ''{'' then Some (loads (strip content)) else None) of
        Some r \<Rightarrow> r
      | None \<Rightarrow>
     (case (if contains content ''```json'' then
              except_pass [IndexError, JSONDecodeError]
                (case fenced_text content ''```json'' of
                   Inl e \<Rightarrow> Some (Inl e)
                 | Inr json_str \<Rightarrow> Some (loads json_str))
            else None) of
        Some r \<Rightarrow> r
      | None \<Rightarrow>
     (case (if contains content ''```'' then
              except_pass [IndexError, JSONDecodeError]
                (case fenced_text content ''```'' of
                   Inl e \<Rightarrow> Some (Inl e)
                 | Inr json_str \<Rightarrow>
                     if startswith json_str ''{'' then Some (loads json_str) else None)
            else None) of
        Some r \<Rightarrow> r
      | None \<Rightarrow>
     (case except_pass [JSONDecodeError]
             (let start = str_find content ''{'';
                  end = str_rfind content ''}'' + 1
              in if start \<ge> 0 \<and> end > start then Some (loads (slice content start end))
                 else None) of
        Some r \<Rightarrow> r
      | None \<Rightarrow> Inr JNull))))"

section \<open>Tool executor (src/agent/nodes.py)\<close>

text \<open>
  An action with an effect that may raise: from the world to a result or an exception,
  and the world after it.
\<close>

type_synonym ('a, 'w) action = "'w \<Rightarrow> (py_exception + 'a) \<times> 'w"

definition ret :: "'a \<Rightarrow> ('a, 'w) action" where
  "ret v = (\<lambda>w. (Inr v, w))"

definition pure_result :: "py_exception + 'a \<Rightarrow> ('a, 'w) action" where
  \<comment> \<open>a computation without effect that returns or raises\<close>
  "pure_result r = (\<lambda>w. (r, w))"

definition reading :: "('w \<Rightarrow> 'a \<times> 'w) \<Rightarrow> ('a, 'w) action" where
  \<comment> \<open>an effect that does not raise, such as reading the clock\<close>
  "reading f = (\<lambda>w. case f w of (v, w1) \<Rightarrow> (Inr v, w1))"

definition and_then :: "('a, 'w) action \<Rightarrow> ('a \<Rightarrow> ('b, 'w) action) \<Rightarrow> ('b, 'w) action" where
  \<comment> \<open>one statement after the other; an exception of the first skips the second\<close>
  "and_then m f = (\<lambda>w. case m w of (Inl e, w1) \<Rightarrow> (Inl e, w1) | (Inr v, w1) \<Rightarrow> f v w1)"

definition dict_item :: "(string \<times> json) list \<Rightarrow> string \<Rightarrow> py_exception + json" where
  \<comment> \<open>\<open>d[key]\<close>; the text of a KeyError is the key in quotes\<close>
  "dict_item d k =
     (case map_of d k of
        None \<Rightarrow> Inl (PyExc KeyError ([CHR 0x27] @ k @ [CHR 0x27]))
      | Some v \<Rightarrow> Inr v)"

definition AVAILABLE_TOOLS :: "string list" where
  \<comment> \<open>the keys of the registry\<close>
  "AVAILABLE_TOOLS = [''write_file'', ''read_file'', ''list_dir'', ''run_command'']"

definition run_tool :: "'w env \<Rightarrow> string \<Rightarrow> (string \<times> json) list \<Rightarrow> (string, 'w) action" where
  \<comment> \<open>\<open>cls.AVAILABLE_TOOLS[tool_name](tool_input)\<close>\<close>
  "run_tool E tool args =
     (if tool = ''write_file'' then
        and_then (pure_result (dict_item args ''path'')) (\<lambda>path.
        and_then (pure_result (dict_item args ''content'')) (\<lambda>c.
        write_file E path c))
      else if tool = ''read_file'' then
        and_then (pure_result (dict_item args ''path'')) (\<lambda>path. read_file E path)
      else if tool = ''list_dir'' then
        and_then (pure_result (dict_item args ''path'')) (\<lambda>path. list_dir E path)
      else if tool = ''run_command'' then
        and_then (pure_result (dict_item args ''command'')) (\<lambda>command.
        run_command_sync E command (dict_get args ''cwd'' (JStr ''.'')))
      else pure_result (Inl (PyExc KeyError ([CHR 0x27] @ tool @ [CHR 0x27]))))"

definition execute ::
  "'w env \<Rightarrow> string \<Rightarrow> (string \<times> json) list \<Rightarrow> agent_state \<Rightarrow> 'w
     \<Rightarrow> (string \<times> bool \<times> tool_result list) \<times> 'w" where
  \<comment> \<open>\<open>ToolExecutor.execute(tool_name, tool_input, state)\<close>\<close>
  "execute E tool tool_input state w =
     (case time_time E w of (start_time, w0) \<Rightarrow>
      (case (if tool \<notin> set AVAILABLE_TOOLS
             then (Inr (''Unknown tool: '' @ tool, False), w0)
             else (case run_tool E tool tool_input w0 of
                     (Inr out, w1) \<Rightarrow> (Inr (out, \<not> startswith out ''Error:''), w1)
                   | (Inl e, w1) \<Rightarrow> (Inl e, w1))) of
         (Inr (out, ok), w1) \<Rightarrow>
           (case time_time E w1 of (end_time, w2) \<Rightarrow>
            (case now_isoformat E w2 of (stamp, w3) \<Rightarrow>
              ((out, ok,
                add_tool_result state tool tool_input (take 1000 out) ok
                  ((end_time - start_time) * 1000) stamp), w3)))
       | (Inl e, w1) \<Rightarrow>
           (case time_time E w1 of (end_time, w2) \<Rightarrow>
            (case now_isoformat E w2 of (stamp, w3) \<Rightarrow>
              (let error_msg = ''Tool execution error: '' @ exc_str e
               in ((error_msg, False,
                    add_tool_result state tool tool_input error_msg False
                      ((end_time - start_time) * 1000) stamp), w3))))))"

section \<open>Worker nodes (src/agent/nodes.py)\<close>

definition fmt :: "'w env \<Rightarrow> json \<Rightarrow> string" where
  \<comment> \<open>a value inside an f-string: a str as it is, another value as Python prints it\<close>
  "fmt E v = (case v of JStr s \<Rightarrow> s | _ \<Rightarrow> py_format E v)"

definition as_dict :: "json \<Rightarrow> py_exception + (string \<times> json) list" where
  \<comment> \<open>the receiver of \<open>action_data.get\<close>: only a dict has \<open>get\<close>\<close>
  "as_dict v =
     (case v of
        JObj d \<Rightarrow> Inr d
      | _ \<Rightarrow> Inl (PyExc AttributeError ''object has no attribute get''))"

definition remember ::
  "'w env \<Rightarrow> agent_state \<Rightarrow> string \<Rightarrow> string \<Rightarrow> (memory_item list, 'w) action" where
  \<comment> \<open>\<open>add_memory(state, "assistant", content, agent)\<close>, reading the clock for the stamp\<close>
  "remember E state c a =
     and_then (reading (now_isoformat E)) (\<lambda>stamp.
     ret (add_memory state ''assistant'' c (Some a) stamp))"

definition worker_error :: "string \<Rightarrow> string \<Rightarrow> py_exception \<Rightarrow> state_update" where
  \<comment> \<open>the dictionary the \<open>except\<close> clause of planner, researcher and reviewer returns\<close>
  "worker_error who label e =
     no_update\<lparr>upd_messages := Some [AIMessage (label @ exc_str e)],
                upd_current_agent := Some who,
                upd_next_step := Some ''supervisor''\<rparr>"

definition planner_body :: "'w env \<Rightarrow> agent_state \<Rightarrow> (state_update, 'w) action" where
  "planner_body E state =
     and_then (call_llm E ([SystemMessage (PLANNER_PROMPT E)] @ messages state)) (\<lambda>plan_content.
     and_then (remember E state plan_content ''planner'') (\<lambda>updated_memory.
     ret (no_update\<lparr>upd_messages := Some [AIMessage plan_content],
                     upd_plan := Some plan_content,
                     upd_memory := Some updated_memory,
                     upd_current_agent := Some ''planner'',
                     upd_next_step := Some ''supervisor''\<rparr>)))"

definition planner_node :: "'w env \<Rightarrow> agent_state \<Rightarrow> 'w \<Rightarrow> state_update \<times> 'w" where
  "planner_node E state w =
     (case planner_body E state w of
        (Inr u, w1) \<Rightarrow> (u, w1)
      | (Inl e, w1) \<Rightarrow> (worker_error ''planner'' ''Planning error: '' e, w1))"

definition researcher_body :: "'w env \<Rightarrow> agent_state \<Rightarrow> (state_update, 'w) action" where
  "researcher_body E state =
     (let context_messages =
            (case repo_map state of
               Some m \<Rightarrow> if m \<noteq> [] then [HumanMessage (''Repository Structure:'' @ [CHR 0x0A] @ m)]
                         else []
             | None \<Rightarrow> []) @ messages state
      in
     and_then (call_llm E ([SystemMessage (RESEARCHER_PROMPT E)] @ context_messages)) (\<lambda>c.
     and_then (pure_result (parse_json_action (json_loads E) c)) (\<lambda>action_data.
     and_then
       (if truthy action_data then
          and_then (pure_result (as_dict action_data)) (\<lambda>d.
          let act = dict_get d ''action'' (JStr [])
          in if act = JStr ''analyze_file'' then
               and_then (read_file E (dict_get d ''path'' (JStr []))) (\<lambda>result.
               ret [AIMessage c,
                    HumanMessage (''File Analysis Result:'' @ [CHR 0x0A] @ result)])
             else if act = JStr ''search_code'' then
               ret [AIMessage c,
                    HumanMessage (''Search Result:'' @ [CHR 0x0A] @
                      ''[Semantic search for: '' @ fmt E (dict_get d ''query'' (JStr [])) @
                      '']'' @ [CHR 0x0A] @ ''(Vector store integration pending)'')]
             else ret [AIMessage c])
        else ret [AIMessage c]) (\<lambda>output_messages.
     and_then (remember E state (take 500 c) ''researcher'') (\<lambda>updated_memory.
     ret (no_update\<lparr>upd_messages := Some output_messages,
                     upd_memory := Some updated_memory,
                     upd_tool_results := Some (get_or (tool_results state) []),
                     upd_current_agent := Some ''researcher'',
                     upd_next_step := Some ''supervisor''\<rparr>))))))"

definition researcher_node :: "'w env \<Rightarrow> agent_state \<Rightarrow> 'w \<Rightarrow> state_update \<times> 'w" where
  "researcher_node E state w =
     (case researcher_body E state w of
        (Inr u, w1) \<Rightarrow> (u, w1)
      | (Inl e, w1) \<Rightarrow> (worker_error ''researcher'' ''Research error: '' e, w1))"

definition registry_key :: "json \<Rightarrow> py_exception + string option" where
  \<comment> \<open>\<open>action in ToolExecutor.AVAILABLE_TOOLS\<close>, with the key when it is there: a list
      or a dict cannot be hashed\<close>
  "registry_key act =
     (case act of
        JStr s \<Rightarrow> Inr (if s \<in> set AVAILABLE_TOOLS then Some s else None)
      | JArr xs \<Rightarrow> Inl (PyExc TypeError ''unhashable type: list'')
      | JObj d \<Rightarrow> Inl (PyExc TypeError ''unhashable type: dict'')
      | _ \<Rightarrow> Inr None)"

definition coder_action ::
  "'w env \<Rightarrow> agent_state \<Rightarrow> string \<Rightarrow> json \<Rightarrow> (message list \<times> tool_result list, 'w) action" where
  \<comment> \<open>the block \<open>if action_data:\<close>; it yields \<open>output_messages\<close> and \<open>tool_results\<close>\<close>
  "coder_action E state c action_data =
     (if truthy action_data then
        and_then (pure_result (as_dict action_data)) (\<lambda>d.
        let act = dict_get d ''action'' (JStr [])
        in if act = JStr ''finish'' then
             ret ([AIMessage c], get_or (tool_results state) [])
           else
             and_then (pure_result (registry_key act)) (\<lambda>key.
             case key of
               Some tool \<Rightarrow>
                 and_then (reading (execute E tool d state)) (\<lambda>(tool_output, ok, results).
                 ret ([AIMessage c,
                       HumanMessage (''Tool Result ('' @ tool @ ''):'' @ [CHR 0x0A] @ tool_output)],
                      results))
             | None \<Rightarrow> ret ([AIMessage c], get_or (tool_results state) [])))
      else ret ([AIMessage c], get_or (tool_results state) []))"

definition coder_body :: "'w env \<Rightarrow> agent_state \<Rightarrow> (state_update, 'w) action" where
  "coder_body E state =
     (let context_messages =
            (case plan state of
               Some p \<Rightarrow> if p \<noteq> [] then [HumanMessage (''Implementation Plan:'' @ [CHR 0x0A] @ p)]
                         else []
             | None \<Rightarrow> []) @ messages state
      in
     and_then (call_llm E ([SystemMessage (CODER_PROMPT E)] @ context_messages)) (\<lambda>c.
     and_then (pure_result (parse_json_action (json_loads E) c)) (\<lambda>action_data.
     and_then (coder_action E state c action_data) (\<lambda>(output_messages, results).
     and_then (remember E state (take 500 c) ''coder'') (\<lambda>updated_memory.
     ret (no_update\<lparr>upd_messages := Some output_messages,
                     upd_memory := Some updated_memory,
                     upd_tool_results := Some results,
                     upd_current_agent := Some ''coder'',
                     upd_next_step := Some ''supervisor''\<rparr>))))))"

definition coder_node :: "'w env \<Rightarrow> agent_state \<Rightarrow> 'w \<Rightarrow> state_update \<times> 'w" where
  "coder_node E state w =
     (case coder_body E state w of
        (Inr u, w1) \<Rightarrow> (u, w1)
      | (Inl e, w1) \<Rightarrow>
          ((worker_error ''coder'' ''Implementation error: '' e)
             \<lparr>upd_error_context :=
                Some [(''agent'', JStr ''coder''), (''error'', JStr (exc_str e)),
                      (''fatal'', JBool False)]\<rparr>, w1))"

definition modified_files :: "agent_state \<Rightarrow> json list" where
  \<comment> \<open>the paths of the successful \<open>write_file\<close> entries\<close>
  "modified_files state =
     map (\<lambda>r. dict_get (input r) ''path'' (JStr ''''))
       (filter (\<lambda>r. tool_name r = ''write_file'' \<and> success r) (get_or (tool_results state) []))"

definition reviewer_body :: "'w env \<Rightarrow> agent_state \<Rightarrow> (state_update, 'w) action" where
  "reviewer_body E state =
     (let context_messages =
            (if modified_files state \<noteq> [] then
               [HumanMessage (''Files modified in this session:'' @ [CHR 0x0A] @
                  str_join [CHR 0x0A] (map (\<lambda>f. ''- '' @ fmt E f) (modified_files state)))]
             else []) @ messages state
      in
     and_then (call_llm E ([SystemMessage (REVIEWER_PROMPT E)] @ context_messages)) (\<lambda>c.
     and_then (pure_result (parse_json_action (json_loads E) c)) (\<lambda>action_data.
     and_then
       (if truthy action_data then
          and_then (pure_result (as_dict action_data)) (\<lambda>d.
          let act = dict_get d ''action'' (JStr [])
          in if act = JStr ''finish'' then
               ret ([AIMessage c],
                    ''Review Verdict: '' @ fmt E (dict_get d ''verdict'' (JStr ''UNKNOWN'')) @
                    [CHR 0x0A] @ fmt E (dict_get d ''summary'' (JStr [])))
             else if act = JStr ''review_file'' then
               (let path = dict_get d ''path'' (JStr [])
                in and_then (read_file E path) (\<lambda>file_content.
                   ret ([AIMessage c,
                         HumanMessage (''File for review ('' @ fmt E path @ ''):'' @ [CHR 0x0A] @
                                       take 2000 file_content)], [])))
             else ret ([AIMessage c], []))
        else ret ([AIMessage c], [])) (\<lambda>(output_messages, refl).
     and_then (remember E state (take 500 c) ''reviewer'') (\<lambda>updated_memory.
     ret (no_update\<lparr>upd_messages := Some output_messages,
                     upd_memory := Some updated_memory,
                     upd_reflection :=
                       Some (if refl \<noteq> [] then refl else get_or (reflection state) []),
                     upd_current_agent := Some ''reviewer'',
                     upd_next_step := Some ''supervisor''\<rparr>))))))"

definition reviewer_node :: "'w env \<Rightarrow> agent_state \<Rightarrow> 'w \<Rightarrow> state_update \<times> 'w" where
  "reviewer_node E state w =
     (case reviewer_body E state w of
        (Inr u, w1) \<Rightarrow> (u, w1)
      | (Inl e, w1) \<Rightarrow> (worker_error ''reviewer'' ''Review error: '' e, w1))"

definition AGENT_NODES :: "(string \<times> ('w env \<Rightarrow> agent_state \<Rightarrow> 'w \<Rightarrow> state_update \<times> 'w)) list" where
  "AGENT_NODES =
     [(''supervisor'', supervisor_node), (''planner'', planner_node),
      (''researcher'', researcher_node), (''coder'', coder_node),
      (''reviewer'', reviewer_node)]"

definition merge_update :: "agent_state \<Rightarrow> state_update \<Rightarrow> agent_state" where
  \<comment> \<open>how the graph folds the dictionary a node returns into the run state, by the
      annotations of \<open>AgentState\<close>: \<open>messages\<close> are added, every other key that is
      present replaces the value\<close>
  "merge_update state u =
     state\<lparr>messages := messages state @ get_or (upd_messages u) [],
            next_step := (case upd_next_step u of None \<Rightarrow> next_step state | Some v \<Rightarrow> Some v),
            current_agent :=
              (case upd_current_agent u of None \<Rightarrow> current_agent state | Some v \<Rightarrow> Some v),
            iteration_count :=
              (case upd_iteration_count u of None \<Rightarrow> iteration_count state | Some v \<Rightarrow> Some v),
            tool_results :=
              (case upd_tool_results u of None \<Rightarrow> tool_results state | Some v \<Rightarrow> Some v),
            memory := (case upd_memory u of None \<Rightarrow> memory state | Some v \<Rightarrow> Some v),
            reflection :=
              (case upd_reflection u of None \<Rightarrow> reflection state | Some v \<Rightarrow> Some v),
            plan := (case upd_plan u of None \<Rightarrow> plan state | Some v \<Rightarrow> Some v),
            error_context :=
              (case upd_error_context u of None \<Rightarrow> error_context state | Some v \<Rightarrow> Some v)\<rparr>"

section \<open>Lists as objects\<close>

text \<open>
  Python lists are objects: \<open>a + b\<close> makes a new list and leaves \<open>a\<close> and \<open>b\<close> as they
  are. For the expression \<open>state.get(key, []) + [item]\<close> of \<open>add_tool_result\<close> and
  \<open>add_memory\<close> this is written out over a store of list objects: an address holds a
  list, and a new list takes the next free address.
\<close>

record 'a store =
  cells :: "nat \<Rightarrow> 'a list option"
  next_free :: nat

definition new_list :: "'a store \<Rightarrow> 'a list \<Rightarrow> nat \<times> 'a store" where
  "new_list h xs =
     (next_free h, h\<lparr>cells := (cells h)(next_free h \<mapsto> xs), next_free := Suc (next_free h)\<rparr>)"

definition list_plus_item :: "'a store \<Rightarrow> nat option \<Rightarrow> 'a \<Rightarrow> nat \<times> 'a store" where
  \<comment> \<open>\<open>state.get(key, []) + [item]\<close>, where \<open>held\<close> is the address the key holds, if
      any: the default \<open>[]\<close>, the list \<open>[item]\<close> and the sum are new lists\<close>
  "list_plus_item h held item =
     (case new_list h [] of (dflt, h1) \<Rightarrow>
      (let prior = (case held of None \<Rightarrow> dflt | Some r \<Rightarrow> r)
       in case new_list h1 [item] of (single, h2) \<Rightarrow>
            new_list h2 (get_or (cells h2 prior) [] @ get_or (cells h2 single) [])))"

definition roles :: "string list" where
  \<comment> \<open>the values of \<open>next_step\<close>\<close>
  "roles = [''supervisor'', ''planner'', ''researcher'', ''coder'', ''reviewer'', ''FINISH'']"

section \<open>A scripted environment\<close>

text \<open>
  Collaborators that can be run: the model and the tools answer from a script, the
  clock stands still, and the world records the calls of the model and the waits.
\<close>

record script =
  llm_replies :: "(py_exception + string) list"
  tool_replies :: "(py_exception + string) list"
  clock :: real
  slept :: "real list"
  llm_calls :: nat

definition scripted_llm :: "script \<Rightarrow> (py_exception + string) \<times> script" where
  "scripted_llm w =
     (case llm_replies w of
        [] \<Rightarrow> (Inl (PyExc (OtherError ''RuntimeError'') ''no reply''),
               w\<lparr>llm_calls := llm_calls w + 1\<rparr>)
      | r # rs \<Rightarrow> (r, w\<lparr>llm_replies := rs, llm_calls := llm_calls w + 1\<rparr>))"

definition scripted_tool :: "script \<Rightarrow> (py_exception + string) \<times> script" where
  "scripted_tool w =
     (case tool_replies w of
        [] \<Rightarrow> (Inl (PyExc (OtherError ''RuntimeError'') ''no reply''), w)
      | r # rs \<Rightarrow> (r, w\<lparr>tool_replies := rs\<rparr>))"

definition scripted_env :: "(string \<Rightarrow> py_exception + json) \<Rightarrow> script env" where
  "scripted_env loads =
     \<lparr>llm_invoke = (\<lambda>msgs. scripted_llm),
      json_loads = loads,
      sleep = (\<lambda>d w. w\<lparr>slept := slept w @ [d]\<rparr>),
      time_time = (\<lambda>w. (clock w, w)),
      now_isoformat = (\<lambda>w. (''2024-01-01T00:00:00'', w)),
      read_file = (\<lambda>path. scripted_tool),
      write_file = (\<lambda>path content. scripted_tool),
      list_dir = (\<lambda>path. scripted_tool),
      run_command_sync = (\<lambda>command cwd. scripted_tool),
      py_format = (\<lambda>v. case v of JStr s \<Rightarrow> s | _ \<Rightarrow> ''<value>''),
      SUPERVISOR_PROMPT = ''You are the supervisor.'',
      PLANNER_PROMPT = ''You are the planner.'',
      RESEARCHER_PROMPT = ''You are the researcher.'',
      CODER_PROMPT = ''You are the coder.'',
      REVIEWER_PROMPT = ''You are the reviewer.'',
      mark_ok = ''ok'',
      mark_fail = ''failed''\<rparr>"

definition no_decoder :: "string \<Rightarrow> py_exception + json" where
  \<comment> \<open>a decoder that rejects every text\<close>
  "no_decoder s = Inl (PyExc JSONDecodeError ''Expecting value'')"

definition initial_state :: agent_state where
  \<comment> \<open>\<open>create_initial_state("hello")\<close>\<close>
  "initial_state =
     \<lparr>messages = [HumanMessage ''hello''], next_step = Some ''supervisor'',
      repo_map = Some [], current_agent = Some ''supervisor'', iteration_count = Some 0,
      max_iterations = Some 25, tool_results = Some [],
      memory = Some [\<lparr>mem_role = ''user'', mem_content = ''hello'',
                      mem_timestamp = ''2024-01-01T00:00:00'', mem_agent = None\<rparr>],
      reflection = Some [], plan = None, error_context = None\<rparr>"

definition script0 :: script where
  "script0 = \<lparr>llm_replies = [], tool_replies = [], clock = 0, slept = [], llm_calls = 0\<rparr>"

definition boom :: "string \<Rightarrow> py_exception + string" where
  \<comment> \<open>a call that raises\<close>
  "boom msg = Inl (PyExc (OtherError ''ConnectionError'') msg)"

definition breaker0 :: circuit_breaker where
  "breaker0 = new_circuit_breaker ''llm'' default_config 100"

definition table_decoder :: "(string \<times> json) list \<Rightarrow> string \<Rightarrow> py_exception + json" where
  \<comment> \<open>a decoder that knows the texts of a table and rejects every other text\<close>
  "table_decoder table s =
     (case map_of table s of
        Some v \<Rightarrow> Inr v
      | None \<Rightarrow> Inl (PyExc JSONDecodeError ''Expecting value''))"

definition write_action :: "(string \<times> json) list" where
  "write_action =
     [(''action'', JStr ''write_file''), (''path'', JStr ''a.py''), (''content'', JStr ''x = 1'')]"

definition write_action_text :: string where
  \<comment> \<open>\<open>json.dumps(write_action)\<close>\<close>
  "write_action_text =
     ''{'' @ [CHR 0x22] @ ''action'' @ [CHR 0x22] @ '': '' @ [CHR 0x22] @ ''write_file'' @ [CHR 0x22] @
     '', '' @ [CHR 0x22] @ ''path'' @ [CHR 0x22] @ '': '' @ [CHR 0x22] @ ''a.py'' @ [CHR 0x22] @
     '', '' @ [CHR 0x22] @ ''content'' @ [CHR 0x22] @ '': '' @ [CHR 0x22] @ ''x = 1'' @ [CHR 0x22] @ ''}''"

definition fence_action :: "(string \<times> json) list" where
  "fence_action = [(''note'', JStr ''```'')]"

definition fence_action_text :: string where
  \<comment> \<open>\<open>json.dumps(fence_action)\<close>\<close>
  "fence_action_text =
     ''{'' @ [CHR 0x22] @ ''note'' @ [CHR 0x22] @ '': '' @ [CHR 0x22] @ ''```'' @ [CHR 0x22] @ ''}''"

definition demo_decoder :: "string \<Rightarrow> py_exception + json" where
  "demo_decoder =
     table_decoder [(write_action_text, JObj write_action),
                    (fence_action_text, JObj fence_action),
                    (''[1, 2]'', JArr [JInt 1, JInt 2])]"

definition coder_script :: script where
  \<comment> \<open>the model answers with the write action, the tool reports success\<close>
  "coder_script =
     script0\<lparr>llm_replies := [Inr write_action_text],
             tool_replies := [Inr ''Successfully wrote to a.py'']\<rparr>"

definition store0 :: "nat store" where
  "store0 = \<lparr>cells = (\<lambda>a. if a = 0 then Some [7, 8] else None), next_free = 1\<rparr>"

definition json_fenced :: "string \<Rightarrow> string" where
  \<comment> \<open>a text inside a fenced block tagged json\<close>
  "json_fenced s = ''```json'' @ [CHR 0x0A] @ s @ [CHR 0x0A] @ ''```''"

section \<open>Properties\<close>

subsection \<open>Substring search\<close>

lemma startswith_prefix: "startswith s p \<longleftrightarrow> prefix p s"
  unfolding startswith_def
  by (metis append_eq_conv_conj prefix_def)

lemma str_find_nonneg_iff: "0 \<le> str_find s sub \<longleftrightarrow> sublist sub s"
proof (induction s)
  case Nil
  then show ?case by simp
next
  case (Cons c cs)
  then show ?case
    by (auto simp: Let_def startswith_prefix sublist_Cons_right)
qed

lemma contains_sublist: "contains s sub \<longleftrightarrow> sublist sub s"
  by (simp add: contains_def str_find_nonneg_iff)

subsection \<open>Termination rule\<close>

text \<open>
  C1. \<open>should_continue\<close> is true exactly when the iteration count is below the cap, the
  next step is not FINISH, and the error context is absent or its fatal flag is false
  (an absent count reads as 0, an absent cap as 25). When the count has reached the cap,
  the supervisor returns FINISH and the count plus one; this holds for every model and
  leaves the world as it was, so the model is not invoked.
\<close>

theorem should_continue_rule:
  "(should_continue state \<longleftrightarrow>
      get_or (iteration_count state) 0 < get_or (max_iterations state) 25
      \<and> next_step state \<noteq> Some ''FINISH''
      \<and> (error_context state = None
         \<or> (\<exists>d. error_context state = Some d
                \<and> \<not> truthy (dict_get d ''fatal'' (JBool False)))))
   \<and> (get_or (max_iterations state) 25 \<le> get_or (iteration_count state) 0 \<longrightarrow>
        supervisor_node E state w =
          (no_update\<lparr>upd_next_step := Some ''FINISH'',
                      upd_iteration_count := Some (get_or (iteration_count state) 0 + 1)\<rparr>, w))"
proof -
  have fatal: "fatal_flag ec \<longleftrightarrow>
      \<not> (ec = None \<or> (\<exists>d. ec = Some d \<and> \<not> truthy (dict_get d ''fatal'' (JBool False))))"
    for ec
    by (cases ec) (auto simp: fatal_flag_def dict_get_def)
  have "should_continue state \<longleftrightarrow>
      get_or (iteration_count state) 0 < get_or (max_iterations state) 25
      \<and> next_step state \<noteq> Some ''FINISH'' \<and> \<not> fatal_flag (error_context state)"
    by (auto simp: should_continue_def)
  then show ?thesis
    by (simp add: fatal supervisor_node_def Let_def)
qed

theorem should_continue_rule_witness:
  "\<not> should_continue (initial_state\<lparr>iteration_count := Some 25\<rparr>)
   \<and> supervisor_node (scripted_env no_decoder) (initial_state\<lparr>iteration_count := Some 25\<rparr>)
        (script0\<lparr>llm_replies := [Inr ''coder'']\<rparr>) =
      (no_update\<lparr>upd_next_step := Some ''FINISH'', upd_iteration_count := Some 26\<rparr>,
       script0\<lparr>llm_replies := [Inr ''coder'']\<rparr>)"
  using should_continue_rule [of "initial_state\<lparr>iteration_count := Some 25\<rparr>"
      "scripted_env no_decoder" "script0\<lparr>llm_replies := [Inr ''coder'']\<rparr>"]
  by (simp add: initial_state_def get_or_def)

subsection \<open>Routing decision\<close>

text \<open>
  C2. The routing decision is computed over the stripped, lower-cased response: FINISH
  when "finish" occurs in it; otherwise the first of planner, researcher, coder, reviewer
  that occurs in it; otherwise coder. The supervisor returns this decision as
  \<open>next_step\<close> whenever the count is below the cap and the model call returns.
\<close>

theorem supervisor_routing_decision:
  "parse_decision d =
     (if sublist ''finish'' d then ''FINISH''
      else if sublist ''planner'' d then ''planner''
      else if sublist ''researcher'' d then ''researcher''
      else if sublist ''coder'' d then ''coder''
      else if sublist ''reviewer'' d then ''reviewer''
      else ''coder'')
   \<and> (get_or (iteration_count state) 0 < get_or (max_iterations state) 25
        \<and> call_llm E (supervisor_messages E state) w = (Inr response, w1) \<longrightarrow>
      upd_next_step (fst (supervisor_node E state w)) =
        Some (parse_decision (lower (strip response))))"
  by (simp add: parse_decision_def Let_def contains_sublist supervisor_node_def)

theorem supervisor_routing_decision_witness:
  "upd_next_step (fst (supervisor_node (scripted_env no_decoder) initial_state
      (script0\<lparr>llm_replies := [Inr ''  Reviewer: FINISH '']\<rparr>))) = Some ''FINISH''
   \<and> parse_decision ''the reviewer, then the planner'' = ''planner''"
proof -
  have call: "call_llm (scripted_env no_decoder)
      (supervisor_messages (scripted_env no_decoder) initial_state)
      (script0\<lparr>llm_replies := [Inr ''  Reviewer: FINISH '']\<rparr>)
    = (Inr ''  Reviewer: FINISH '', script0\<lparr>llm_replies := [], llm_calls := 1\<rparr>)"
    by (simp add: call_llm_def retry_with_backoff_def retry_attempts.simps scripted_env_def
        scripted_llm_def script0_def)
  have lt: "get_or (iteration_count initial_state) 0 < get_or (max_iterations initial_state) 25"
    by (simp add: initial_state_def get_or_def)
  have low: "lower (strip ''  Reviewer: FINISH '') = ''reviewer: finish''"
    by code_simp
  have fin: "sublist ''finish'' ''reviewer: finish''"
    by (simp add: contains_sublist [symmetric] contains_def startswith_def)
  have pl: "sublist ''planner'' ''the reviewer, then the planner''"
    by (simp add: contains_sublist [symmetric] contains_def startswith_def)
  have nf: "\<not> sublist ''finish'' ''the reviewer, then the planner''"
    by (simp add: contains_sublist [symmetric] contains_def startswith_def)
  from supervisor_routing_decision [of "''reviewer: finish''" initial_state "scripted_env no_decoder"
      "script0\<lparr>llm_replies := [Inr ''  Reviewer: FINISH '']\<rparr>" "''  Reviewer: FINISH ''"
      "script0\<lparr>llm_replies := [], llm_calls := 1\<rparr>"]
    supervisor_routing_decision [of "''the reviewer, then the planner''" initial_state "scripted_env no_decoder"
      "script0\<lparr>llm_replies := [Inr ''  Reviewer: FINISH '']\<rparr>" "''  Reviewer: FINISH ''"
      "script0\<lparr>llm_replies := [], llm_calls := 1\<rparr>"]
  show ?thesis
    using call lt low fin pl nf by simp
qed

subsection \<open>Retry with backoff\<close>

lemma retry_attempts_from:
  "a < n \<Longrightarrow>
   retry_attempts slp func (int n) b m (int a) lst (world_before slp func b m w a) =
     (case first_success slp func b m w a n of
        Some k \<Rightarrow> attempt_outcome slp func b m w k
      | None \<Rightarrow> attempt_outcome slp func b m w (n - 1))"
proof (induction "n - a" arbitrary: a lst)
  case 0
  then show ?case by simp
next
  case (Suc d)
  obtain r w1 where out: "func (world_before slp func b m w a) = (r, w1)"
    by (cases "func (world_before slp func b m w a)")
  have upt: "[a..<n] = a # [Suc a..<n]"
    using Suc.prems by (simp add: upt_conv_Cons)
  show ?case
  proof (cases r)
    case (Inr v)
    with out Suc.prems show ?thesis
      by (subst retry_attempts.simps)
         (simp add: first_success_def attempt_outcome_def upt)
  next
    case (Inl e)
    show ?thesis
    proof (cases "Suc a = n")
      case True
      then have n: "n = Suc a" by simp
      from out Inl show ?thesis
        unfolding n
        by (subst retry_attempts.simps)
           (simp add: first_success_def attempt_outcome_def)
    next
      case False
      with Suc.prems have lt: "Suc a < n" by simp
      from Suc.hyps(2) have d: "d = n - Suc a" by simp
      have step: "retry_attempts slp func (int n) b m (int a) lst (world_before slp func b m w a)
          = retry_attempts slp func (int n) b m (int (Suc a)) (Some e)
              (world_before slp func b m w (Suc a))"
        using out Inl False Suc.prems
        by (subst retry_attempts.simps) (auto simp: add.commute)
      have fs: "first_success slp func b m w a n = first_success slp func b m w (Suc a) n"
        using out Inl by (simp add: first_success_def attempt_outcome_def upt)
      show ?thesis
        unfolding step fs by (rule Suc.hyps(1) [OF d lt])
    qed
  qed
qed

text \<open>
  C9. \<open>retry_with_backoff\<close> with at least one attempt allowed returns what the first
  attempt that succeeds returns; before attempt \<open>k\<close> it has waited
  \<open>min(base_delay * 2^j, max_delay)\<close> after each failed attempt \<open>j < k\<close>; it makes at most
  \<open>max_retries\<close> attempts; and when none succeeds it raises the exception of the last one.
  The defaults of the source are 3 attempts, 1 second and 30 seconds.
\<close>

theorem retry_with_backoff_rule:
  "0 < n \<Longrightarrow>
   retry_with_backoff slp func (int n) base_delay max_delay w =
     (case first_success slp func base_delay max_delay w 0 n of
        Some k \<Rightarrow> attempt_outcome slp func base_delay max_delay w k
      | None \<Rightarrow> attempt_outcome slp func base_delay max_delay w (n - 1))"
  using retry_attempts_from [of 0 n slp func base_delay max_delay None w]
  by (simp add: retry_with_backoff_def)

theorem retry_with_backoff_rule_witness:
  "retry_with_backoff (sleep (scripted_env no_decoder)) scripted_llm 3 1 30
     (script0\<lparr>llm_replies := [boom ''first'', boom ''second'', Inr ''done'']\<rparr>) =
     (Inr ''done'', script0\<lparr>llm_replies := [], slept := [1, 2], llm_calls := 3\<rparr>)
   \<and> retry_with_backoff (sleep (scripted_env no_decoder)) scripted_llm 3 1 30
     (script0\<lparr>llm_replies := [boom ''first'', boom ''second'', boom ''third'', Inr ''late'']\<rparr>) =
     (boom ''third'', script0\<lparr>llm_replies := [Inr ''late''], slept := [1, 2], llm_calls := 3\<rparr>)"
proof -
  have three: "(0::nat) < 3" by simp
  have upt3: "[0..<3] = [0, 1, 2]" by (simp add: upt_rec)
  show ?thesis
    using retry_with_backoff_rule [OF three, of "sleep (scripted_env no_decoder)" scripted_llm 1 30
        "script0\<lparr>llm_replies := [boom ''first'', boom ''second'', Inr ''done'']\<rparr>"]
      retry_with_backoff_rule [OF three, of "sleep (scripted_env no_decoder)" scripted_llm 1 30
        "script0\<lparr>llm_replies := [boom ''first'', boom ''second'', boom ''third'', Inr ''late'']\<rparr>"]
    by (simp add: first_success_def attempt_outcome_def upt3 scripted_env_def scripted_llm_def
        script0_def boom_def eval_nat_numeral)
qed

subsection \<open>Rounding to binary64\<close>

lemma round_half_even_int [simp]: "round_half_even (of_int n) = n"
  by (simp add: round_half_even_def)

lemma round_half_even_zero [simp]: "round_half_even 0 = 0"
  by (simp add: round_half_even_def)




lemma pow2_ge_one: "(1::real) \<le> 2 ^ k"
  by simp

lemma scaled_small: "a * 2 ^ k < c \<Longrightarrow> 0 \<le> a \<Longrightarrow> a < (c::real)"
proof -
  assume lt: "a * 2 ^ k < c" and nn: "0 \<le> a"
  have "a * 1 \<le> a * 2 ^ k" using pow2_ge_one [of k] nn by (rule mult_left_mono)
  with lt show ?thesis by simp
qed



lemma scale_up_closed:
  "2 ^ 52 \<le> a * 2 ^ k \<Longrightarrow> a * 2 ^ k < 2 ^ 53 \<Longrightarrow> - 1074 \<le> e - int k \<Longrightarrow>
   scale_up a e = (a * 2 ^ k, e - int k)"
proof (induction k arbitrary: a e)
  case 0
  then show ?case by (simp add: scale_up.simps)
next
  case (Suc k)
  have "(0::real) < 2 ^ 52" by simp
  also note Suc.prems(1)
  finally have "0 < a" by (simp add: zero_less_mult_iff)
  moreover from Suc.prems(2) have "a * 2 ^ k < 2 ^ 52" by simp
  ultimately have small: "a < 2 ^ 52" by (intro scaled_small [of a k]) simp_all
  from Suc.prems have "2 ^ 52 \<le> 2 * a * 2 ^ k" "2 * a * 2 ^ k < 2 ^ 53" "- 1074 \<le> e - 1 - int k"
    by (simp_all add: mult.assoc mult.left_commute)
  from Suc.IH [OF this] have "scale_up (2 * a) (e - 1) = (2 * a * 2 ^ k, e - 1 - int k)" .
  moreover from Suc.prems(3) have "- 1074 < e" by simp
  ultimately show ?case using small
    by (subst scale_up.simps) (simp add: mult.assoc mult.left_commute)
qed

lemma scale_up_subnormal:
  "a * 2 ^ k < 2 ^ 52 \<Longrightarrow> 0 \<le> a \<Longrightarrow> e = int k - 1074 \<Longrightarrow> scale_up a e = (a * 2 ^ k, - 1074)"
proof (induction k arbitrary: a e)
  case 0
  then show ?case by (simp add: scale_up.simps)
next
  case (Suc k)
  from Suc.prems(1,2) have small: "a < 2 ^ 52" by (rule scaled_small)
  from Suc.prems have "2 * a * 2 ^ k < 2 ^ 52" "0 \<le> 2 * a" "e - 1 = int k - 1074"
    by (simp_all add: mult.assoc mult.left_commute)
  from Suc.IH [OF this] have "scale_up (2 * a) (e - 1) = (2 * a * 2 ^ k, - 1074)" .
  moreover from Suc.prems(3) have "- 1074 < e" by simp
  ultimately show ?case using small
    by (subst scale_up.simps) (simp add: mult.assoc mult.left_commute)
qed

text \<open>
  The three ranges of a rounding: a number of at least \<open>2\<^sup>5\<^sup>3\<close> is rounded to a multiple of
  a power of two, a smaller normal number to a multiple of \<open>2\<^sup>-\<^sup>k\<close> with a significand of 53
  bits, and a subnormal number to a multiple of \<open>2\<^sup>-\<^sup>1\<^sup>0\<^sup>7\<^sup>4\<close>.
\<close>

lemma binary64_up:
  assumes lo: "2 ^ 52 \<le> x * 2 ^ k" and hi: "x * 2 ^ k < 2 ^ 53" and k: "k \<le> 1074"
  shows "binary64 x = of_int (round_half_even (x * 2 ^ k)) / 2 ^ k"
proof -
  have "(0::real) < 2 ^ 52" by simp
  also note lo
  finally have pos: "0 < x" by (simp add: zero_less_mult_iff)
  from hi pos have "x < 2 ^ 53" by (intro scaled_small [of x k]) simp_all
  then have down: "scale_down x 0 = (x, 0)" by (simp add: scale_down.simps)
  from k have "- 1074 \<le> 0 - int k" by simp
  from scale_up_closed [OF lo hi this] have up: "scale_up x 0 = (x * 2 ^ k, - int k)" by simp
  from pos show ?thesis
    by (simp add: binary64_def round_pos_def down up power_int_minus field_simps)
qed


lemma binary64_subnormal:
  assumes nn: "0 \<le> x" and hi: "x * 2 ^ k < 2 ^ 52" and k: "k = 1074"
  shows "binary64 x = of_int (round_half_even (x * 2 ^ k)) / 2 ^ k"
proof -
  from hi nn have "x < 2 ^ 52" by (rule scaled_small)
  then have down: "scale_down x 0 = (x, 0)" by (simp add: scale_down.simps)
  from k have "(0::int) = int k - 1074" by simp
  from scale_up_subnormal [OF hi nn this] have up: "scale_up x 0 = (x * 2 ^ k, - 1074)" .
  from k have "(- 1074 :: int) = - int k" by simp
  then have "(2::real) powi (- 1074) = 2 powi (- int k)" by (rule arg_cong)
  also have "\<dots> = inverse (2 ^ k)" by (simp add: power_int_minus)
  finally have p: "(2::real) powi (- 1074) = inverse (2 ^ k)" .
  from nn have "binary64 x = of_int (round_half_even (x * 2 ^ k)) * 2 powi (- 1074)"
    by (simp add: binary64_def round_pos_def down up)
  then show ?thesis unfolding p by (simp add: divide_inverse)
qed

lemma binary64_zero [simp]: "binary64 0 = 0"
proof -
  have "binary64 0 = of_int (round_half_even (0 * 2 ^ 1074)) / 2 ^ 1074"
    by (rule binary64_subnormal) simp_all
  then show ?thesis by simp
qed

lemma binary64_minus: "binary64 (- x) = - binary64 x"
proof -
  have "round_pos 0 = 0" using binary64_zero by (simp add: binary64_def)
  then show ?thesis by (cases "x = 0") (auto simp: binary64_def)
qed

lemma normalise_up:
  "0 \<le> (x::real) \<Longrightarrow> x < 2 ^ 53 \<Longrightarrow>
   (\<exists>k\<le>n. 2 ^ 52 \<le> x * 2 ^ k \<and> x * 2 ^ k < 2 ^ 53) \<or> x * 2 ^ n < 2 ^ 52"
proof (induction n)
  case 0
  then show ?case by (cases "x < 2 ^ 52") auto
next
  case (Suc n)
  from Suc.IH [OF Suc.prems] show ?case
  proof
    assume "\<exists>k\<le>n. 2 ^ 52 \<le> x * 2 ^ k \<and> x * 2 ^ k < 2 ^ 53"
    then obtain k where "k \<le> n" "2 ^ 52 \<le> x * 2 ^ k" "x * 2 ^ k < 2 ^ 53" by blast
    then have "k \<le> Suc n \<and> 2 ^ 52 \<le> x * 2 ^ k \<and> x * 2 ^ k < 2 ^ 53" by simp
    then show ?thesis by blast
  next
    assume small: "x * 2 ^ n < 2 ^ 52"
    then have hi: "x * 2 ^ Suc n < 2 ^ 53" by simp
    show ?thesis
    proof (cases "x * 2 ^ Suc n < 2 ^ 52")
      case True
      then show ?thesis by blast
    next
      case False
      with hi have "Suc n \<le> Suc n \<and> 2 ^ 52 \<le> x * 2 ^ Suc n \<and> x * 2 ^ Suc n < 2 ^ 53" by simp
      then show ?thesis by blast
    qed
  qed
qed




text \<open>A significand of at most 53 bits over a power of two is a double: rounding keeps it.\<close>

lemma binary64_exact:
  assumes nn: "0 \<le> N" and hi: "N < 2 ^ 53" and k: "k \<le> 1022"
  shows "binary64 (of_int N / 2 ^ k) = of_int N / 2 ^ k"
proof (cases "N = 0")
  case True
  then show ?thesis by simp
next
  case False
  with nn have one: "1 \<le> N" by simp
  have "0 \<le> real_of_int N" "real_of_int N < 2 ^ 53" using nn hi by simp_all
  from normalise_up [OF this, of 52] one
  obtain j where j: "j \<le> 52" and lo: "2 ^ 52 \<le> real_of_int N * 2 ^ j"
    and up: "real_of_int N * 2 ^ j < 2 ^ 53" by auto
  let ?x = "real_of_int N / 2 ^ k"
  have scaled: "?x * 2 ^ (k + j) = of_int (N * 2 ^ j)" by (simp add: power_add)
  from lo up have "2 ^ 52 \<le> ?x * 2 ^ (k + j)" "?x * 2 ^ (k + j) < 2 ^ 53"
    unfolding scaled by simp_all
  moreover from j k have "k + j \<le> 1074" by simp
  ultimately have "binary64 ?x = of_int (round_half_even (?x * 2 ^ (k + j))) / 2 ^ (k + j)"
    by (rule binary64_up)
  also have "\<dots> = of_int (N * 2 ^ j) / 2 ^ (k + j)"
    unfolding scaled by (simp only: round_half_even_int)
  also have "\<dots> = ?x" by (simp add: power_add)
  finally show ?thesis .
qed

lemma binary64_int: "\<bar>N\<bar> < 2 ^ 53 \<Longrightarrow> binary64 (of_int N) = of_int N"
proof (cases "0 \<le> N")
  case True
  assume "\<bar>N\<bar> < 2 ^ 53"
  with True binary64_exact [of N 0] show ?thesis by simp
next
  case False
  assume "\<bar>N\<bar> < 2 ^ 53"
  with False binary64_exact [of "- N" 0] have "binary64 (of_int (- N)) = of_int (- N)" by simp
  then show ?thesis using binary64_minus [of "of_int N"] by simp
qed

lemma binary64_numeral [simp]:
  "numeral n < (2::int) ^ 53 \<Longrightarrow> binary64 (numeral n) = numeral n"
  using binary64_int [of "numeral n"] by simp

lemma binary64_one [simp]: "binary64 1 = 1"
  using binary64_int [of 1] by simp




lemma float_sub_self [simp]: "float_sub x x = 0"
  by (simp add: float_sub_def)

subsection \<open>Token bucket\<close>

















subsection \<open>Circuit breaker\<close>

lemma record_failure_open: "cstate cb = OPEN \<Longrightarrow> cstate (record_failure cb t t') = OPEN"
  by (simp add: record_failure_def Let_def)

lemma record_failure_config: "config (record_failure cb t t') = config cb"
  by (simp add: record_failure_def Let_def)

lemma record_failures_open: "cstate cb = OPEN \<Longrightarrow> cstate (record_failures cb ts) = OPEN"
  by (induction cb ts rule: record_failures.induct) (simp_all add: record_failure_open)

lemma record_failures_closed:
  "cstate cb = CLOSED \<Longrightarrow>
   failure_threshold (config cb) \<le> failure_count cb + int (length ts) \<Longrightarrow> ts \<noteq> [] \<Longrightarrow>
   cstate (record_failures cb ts) = OPEN"
proof (induction cb ts rule: record_failures.induct)
  case (1 cb)
  then show ?case by simp
next
  case (2 cb t t' ts)
  show ?case
  proof (cases "cstate (record_failure cb t t') = OPEN")
    case True
    then show ?thesis by (simp add: record_failures_open)
  next
    case False
    with "2.prems"(1) have closed: "cstate (record_failure cb t t') = CLOSED"
      and small: "failure_count cb + 1 < failure_threshold (config cb)"
      and count: "failure_count (record_failure cb t t') = failure_count cb + 1"
      by (auto simp: record_failure_def Let_def split: if_splits)
    from small "2.prems"(2) have ne: "ts \<noteq> []" by auto
    from "2.prems"(2) count
    have "failure_threshold (config (record_failure cb t t'))
        \<le> failure_count (record_failure cb t t') + int (length ts)"
      by (simp add: record_failure_config)
    from "2.IH" [OF closed this ne] show ?thesis by simp
  qed
qed

lemma record_success_closed:
  "cstate cb = CLOSED \<Longrightarrow> 0 \<le> failure_count cb \<Longrightarrow>
   cstate (record_successes cb ts) = CLOSED
   \<and> (ts \<noteq> [] \<longrightarrow> failure_count (record_successes cb ts) = max 0 (failure_count cb - int (length ts)))"
proof (induction cb ts rule: record_successes.induct)
  case (1 cb)
  then show ?case by simp
next
  case (2 cb t ts)
  have c: "cstate (record_success cb t) = CLOSED"
    and f: "failure_count (record_success cb t) = max 0 (failure_count cb - 1)"
    using "2.prems" by (simp_all add: record_success_def)
  then have nn: "0 \<le> failure_count (record_success cb t)" by simp
  from "2.IH" [OF c nn] f show ?case
    by (cases ts) (auto simp: max_def)
qed

lemma record_success_config: "config (record_success cb t) = config cb"
  by (simp add: record_success_def Let_def)

lemma record_successes_half_open:
  "cstate cb = HALF_OPEN \<Longrightarrow>
   success_threshold (config cb) \<le> success_count cb + int (length ts) \<Longrightarrow> ts \<noteq> [] \<Longrightarrow>
   cstate (record_successes cb ts) = CLOSED \<and> failure_count (record_successes cb ts) = 0"
proof (induction cb ts rule: record_successes.induct)
  case (1 cb)
  then show ?case by simp
next
  case (2 cb t ts)
  show ?case
  proof (cases "success_threshold (config cb) \<le> success_count cb + 1")
    case True
    with "2.prems"(1) have c: "cstate (record_success cb t) = CLOSED"
      and f: "failure_count (record_success cb t) = 0"
      by (simp_all add: record_success_def Let_def)
    from record_success_closed [OF c, of ts] f show ?thesis
      by (cases ts) (auto simp: max_def)
  next
    case False
    with "2.prems"(1) have h: "cstate (record_success cb t) = HALF_OPEN"
      and s: "success_count (record_success cb t) = success_count cb + 1"
      by (simp_all add: record_success_def Let_def)
    from False "2.prems"(2) have ne: "ts \<noteq> []" by auto
    from "2.prems"(2) s
    have "success_threshold (config (record_success cb t))
        \<le> success_count (record_success cb t) + int (length ts)"
      by (simp add: record_success_config)
    from "2.IH" [OF h this ne] show ?thesis by simp
  qed
qed


text \<open>
  C4. Circuit breaker transitions. From CLOSED, \<open>failure_threshold\<close> consecutive
  recorded failures leave the breaker OPEN. While OPEN and before \<open>timeout_seconds\<close> have
  passed since \<open>last_failure_time\<close>, \<open>call\<close> raises the circuit-open error, whatever the
  wrapped function is, and leaves the breaker and the world as they were. Once the
  timeout has passed, \<open>call\<close> first moves to HALF_OPEN with \<open>success_count\<close> 0 and then
  runs the wrapped function, recording its success or failure, as every call does when
  the breaker is not OPEN. In HALF_OPEN, \<open>success_threshold\<close> successes lead to CLOSED
  with \<open>failure_count\<close> 0, and one failure leads to OPEN. In CLOSED a success sets
  \<open>failure_count\<close> to \<open>max(0, failure_count - 1)\<close>.
\<close>

theorem circuit_breaker_transitions:
  "(cstate cb = CLOSED \<and> 0 \<le> failure_count cb \<and> 0 < failure_threshold (config cb)
      \<and> int (length fs) = failure_threshold (config cb) \<longrightarrow>
    cstate (record_failures cb fs) = OPEN)
   \<and> (cstate cb = OPEN \<and> now - last_failure_time cb < timeout_seconds (config cb) \<longrightarrow>
    call cb func now t2 t3 t4 w = (Inl (circuit_open_error cb), cb, w))
   \<and> (cstate cb = OPEN \<and> timeout_seconds (config cb) \<le> now - last_failure_time cb \<longrightarrow>
    call cb func now t2 t3 t4 w =
      (let cb1 = cb\<lparr>cstate := HALF_OPEN, success_count := 0, last_state_change := t2\<rparr>
       in case func w of
            (Inr result, w1) \<Rightarrow> (Inr result, record_success cb1 t3, w1)
          | (Inl e, w1) \<Rightarrow> (Inl e, record_failure cb1 t3 t4, w1)))
   \<and> (cstate cb \<noteq> OPEN \<longrightarrow>
    call cb func now t2 t3 t4 w =
      (case func w of
         (Inr result, w1) \<Rightarrow> (Inr result, record_success cb t3, w1)
       | (Inl e, w1) \<Rightarrow> (Inl e, record_failure cb t3 t4, w1)))
   \<and> (cstate cb = HALF_OPEN \<and> 0 \<le> success_count cb \<and> 0 < success_threshold (config cb)
      \<and> int (length ss) = success_threshold (config cb) \<longrightarrow>
    cstate (record_successes cb ss) = CLOSED \<and> failure_count (record_successes cb ss) = 0)
   \<and> (cstate cb = HALF_OPEN \<longrightarrow> cstate (record_failure cb t t') = OPEN)
   \<and> (cstate cb = CLOSED \<longrightarrow>
    cstate (record_success cb t) = CLOSED
    \<and> failure_count (record_success cb t) = max 0 (failure_count cb - 1))"
proof (intro conjI impI)
  assume "cstate cb = CLOSED \<and> 0 \<le> failure_count cb \<and> 0 < failure_threshold (config cb)
      \<and> int (length fs) = failure_threshold (config cb)"
  then show "cstate (record_failures cb fs) = OPEN"
    by (intro record_failures_closed) auto
next
  assume "cstate cb = OPEN \<and> now - last_failure_time cb < timeout_seconds (config cb)"
  then show "call cb func now t2 t3 t4 w = (Inl (circuit_open_error cb), cb, w)"
    by (simp add: call_def check_state_transition_def Let_def)
next
  assume "cstate cb = OPEN \<and> timeout_seconds (config cb) \<le> now - last_failure_time cb"
  then show "call cb func now t2 t3 t4 w =
      (let cb1 = cb\<lparr>cstate := HALF_OPEN, success_count := 0, last_state_change := t2\<rparr>
       in case func w of
            (Inr result, w1) \<Rightarrow> (Inr result, record_success cb1 t3, w1)
          | (Inl e, w1) \<Rightarrow> (Inl e, record_failure cb1 t3 t4, w1))"
    by (simp add: call_def check_state_transition_def Let_def)
next
  assume "cstate cb \<noteq> OPEN"
  then show "call cb func now t2 t3 t4 w =
      (case func w of
         (Inr result, w1) \<Rightarrow> (Inr result, record_success cb t3, w1)
       | (Inl e, w1) \<Rightarrow> (Inl e, record_failure cb t3 t4, w1))"
    by (simp add: call_def check_state_transition_def Let_def)
next
  assume h: "cstate cb = HALF_OPEN \<and> 0 \<le> success_count cb \<and> 0 < success_threshold (config cb)
      \<and> int (length ss) = success_threshold (config cb)"
  then have "cstate (record_successes cb ss) = CLOSED \<and> failure_count (record_successes cb ss) = 0"
    by (intro record_successes_half_open) auto
  then show "cstate (record_successes cb ss) = CLOSED"
    and "failure_count (record_successes cb ss) = 0" by simp_all
next
  assume "cstate cb = HALF_OPEN"
  then show "cstate (record_failure cb t t') = OPEN"
    by (simp add: record_failure_def Let_def)
next
  assume "cstate cb = CLOSED"
  then show "cstate (record_success cb t) = CLOSED"
    and "failure_count (record_success cb t) = max 0 (failure_count cb - 1)"
    by (simp_all add: record_success_def)
qed

theorem circuit_breaker_transitions_witness:
  "cstate (record_failures breaker0 [(101, 101), (102, 102), (103, 103), (104, 104), (105, 105)]) = OPEN
   \<and> call (breaker0\<lparr>cstate := OPEN, failure_count := 5, last_failure_time := 105\<rparr>)
        scripted_llm 120 120 121 121 (script0\<lparr>llm_replies := [Inr ''pong'']\<rparr>) =
       (Inl (circuit_open_error breaker0),
        breaker0\<lparr>cstate := OPEN, failure_count := 5, last_failure_time := 105\<rparr>,
        script0\<lparr>llm_replies := [Inr ''pong'']\<rparr>)
   \<and> call (breaker0\<lparr>cstate := OPEN, failure_count := 5, last_failure_time := 105\<rparr>)
        scripted_llm 135 135 136 136 (script0\<lparr>llm_replies := [Inr ''pong'']\<rparr>) =
       (Inr ''pong'',
        breaker0\<lparr>cstate := HALF_OPEN, failure_count := 5, success_count := 1,
                  last_failure_time := 105, last_state_change := 135\<rparr>,
        script0\<lparr>llm_replies := [], llm_calls := 1\<rparr>)
   \<and> call breaker0 scripted_llm 101 101 102 102 (script0\<lparr>llm_replies := [boom ''down'']\<rparr>) =
       (boom ''down'', breaker0\<lparr>failure_count := 1, last_failure_time := 102\<rparr>,
        script0\<lparr>llm_replies := [], llm_calls := 1\<rparr>)
   \<and> cstate (record_successes (breaker0\<lparr>cstate := HALF_OPEN, failure_count := 5\<rparr>) [136, 137]) = CLOSED
   \<and> failure_count (record_successes (breaker0\<lparr>cstate := HALF_OPEN, failure_count := 5\<rparr>) [136, 137]) = 0
   \<and> cstate (record_failure (breaker0\<lparr>cstate := HALF_OPEN\<rparr>) 136 136) = OPEN
   \<and> failure_count (record_success (breaker0\<lparr>failure_count := 3\<rparr>) 101) = 2"
  using
    circuit_breaker_transitions [of breaker0
      "[(101, 101), (102, 102), (103, 103), (104, 104), (105, 105)]"]
    circuit_breaker_transitions [of
      "breaker0\<lparr>cstate := OPEN, failure_count := 5, last_failure_time := 105\<rparr>" _ 120
      scripted_llm 120 121 121 "script0\<lparr>llm_replies := [Inr ''pong'']\<rparr>"]
    circuit_breaker_transitions [of
      "breaker0\<lparr>cstate := OPEN, failure_count := 5, last_failure_time := 105\<rparr>" _ 135
      scripted_llm 135 136 136 "script0\<lparr>llm_replies := [Inr ''pong'']\<rparr>"]
    circuit_breaker_transitions [of breaker0 _ 101
      scripted_llm 101 102 102 "script0\<lparr>llm_replies := [boom ''down'']\<rparr>"]
    circuit_breaker_transitions [of "breaker0\<lparr>cstate := HALF_OPEN, failure_count := 5\<rparr>" _ _ _ _ _ _ _
      "[136, 137]" 136 136]
    circuit_breaker_transitions [of "breaker0\<lparr>failure_count := 3\<rparr>" _ _ _ _ _ _ _ _ 101]
  by (simp add: breaker0_def new_circuit_breaker_def default_config_def circuit_open_error_def
      scripted_llm_def script0_def boom_def record_success_def record_failure_def Let_def)

subsection \<open>Growth of the run state\<close>

text \<open>What the dictionary a node returns may do to the run state.\<close>

definition extends :: "agent_state \<Rightarrow> state_update \<Rightarrow> bool" where
  "extends state u =
     ((case upd_tool_results u of None \<Rightarrow> True
       | Some l \<Rightarrow> prefix (get_or (tool_results state) []) l)
      \<and> (case upd_memory u of None \<Rightarrow> True
       | Some l \<Rightarrow> prefix (get_or (memory state) []) l)
      \<and> (case upd_iteration_count u of None \<Rightarrow> True
       | Some k \<Rightarrow> get_or (iteration_count state) 0 \<le> k)
      \<and> (case upd_next_step u of None \<Rightarrow> False | Some s \<Rightarrow> s \<in> set roles))"

lemma and_then_Inr:
  "and_then m f w = (Inr u, w') \<Longrightarrow> \<exists>v w1. m w = (Inr v, w1) \<and> f v w1 = (Inr u, w')"
  by (auto simp: and_then_def split: prod.splits sum.splits)

lemma remember_Inr:
  "remember E state c a w = (Inr l, w') \<Longrightarrow> prefix (get_or (memory state) []) l"
  by (auto simp: remember_def and_then_def reading_def ret_def add_memory_def
      split: prod.splits sum.splits)

lemma extends_worker_error: "extends state (worker_error who label e)"
  by (simp add: extends_def worker_error_def no_update_def roles_def)

lemma planner_extends: "extends state (fst (planner_node E state w))"
proof (cases "planner_body E state w")
  case (Pair r w')
  show ?thesis
  proof (cases r)
    case (Inl e)
    with Pair show ?thesis by (simp add: planner_node_def extends_worker_error)
  next
    case (Inr u)
    with Pair have "planner_body E state w = (Inr u, w')" by simp
    then obtain c w1 l w2 where
      "remember E state c ''planner'' w1 = (Inr l, w2)"
      and u: "u = no_update\<lparr>upd_messages := Some [AIMessage c], upd_plan := Some c,
                     upd_memory := Some l, upd_current_agent := Some ''planner'',
                     upd_next_step := Some ''supervisor''\<rparr>"
      unfolding planner_body_def
      by (auto dest!: and_then_Inr simp: ret_def)
    then have "prefix (get_or (memory state) []) l" by (auto dest: remember_Inr)
    with u Pair Inr show ?thesis
      by (simp add: planner_node_def extends_def no_update_def roles_def)
  qed
qed

lemma execute_results:
  "execute E tool tool_input state w = ((out, ok, results), w') \<Longrightarrow>
   \<exists>entry. results = get_or (tool_results state) [] @ [entry]"
  by (auto simp: execute_def add_tool_result_def Let_def split: prod.splits sum.splits if_splits)


lemma reading_Inr: "reading f w = (Inr v, w') \<Longrightarrow> f w = (v, w')"
  by (auto simp: reading_def split: prod.splits)

lemma researcher_body_extends:
  "researcher_body E state w = (Inr u, w') \<Longrightarrow> extends state u"
  unfolding researcher_body_def Let_def
  by (auto dest!: and_then_Inr dest: remember_Inr
      simp: ret_def extends_def no_update_def roles_def)

lemma reviewer_body_extends:
  "reviewer_body E state w = (Inr u, w') \<Longrightarrow> extends state u"
  unfolding reviewer_body_def Let_def
  by (auto dest!: and_then_Inr dest: remember_Inr
      simp: ret_def extends_def no_update_def roles_def split: prod.splits)

lemma coder_action_results:
  "coder_action E state c action_data w = (Inr (om, results), w') \<Longrightarrow>
   prefix (get_or (tool_results state) []) results"
  unfolding coder_action_def Let_def
  by (auto dest!: and_then_Inr reading_Inr execute_results
      simp: ret_def split: if_splits option.splits prod.splits)

lemma coder_body_extends:
  "coder_body E state w = (Inr u, w') \<Longrightarrow> extends state u"
  unfolding coder_body_def Let_def
  by (auto dest!: and_then_Inr dest: remember_Inr coder_action_results
      simp: ret_def extends_def no_update_def roles_def split: prod.splits)


lemma parse_decision_role: "parse_decision d \<in> set roles"
  by (simp add: parse_decision_def Let_def roles_def)

lemma supervisor_extends: "extends state (fst (supervisor_node E state w))"
  by (auto simp: supervisor_node_def Let_def extends_def no_update_def roles_def
      parse_decision_def split: prod.splits sum.splits)

lemma researcher_extends: "extends state (fst (researcher_node E state w))"
  by (auto simp: researcher_node_def extends_worker_error
      dest: researcher_body_extends split: prod.splits sum.splits)

lemma reviewer_extends: "extends state (fst (reviewer_node E state w))"
  by (auto simp: reviewer_node_def extends_worker_error
      dest: reviewer_body_extends split: prod.splits sum.splits)

lemma coder_extends: "extends state (fst (coder_node E state w))"
proof (cases "coder_body E state w")
  case (Pair r w')
  show ?thesis
  proof (cases r)
    case (Inl e)
    have "extends state ((worker_error ''coder'' ''Implementation error: '' e)
             \<lparr>upd_error_context := Some [(''agent'', JStr ''coder''),
                 (''error'', JStr (exc_str e)), (''fatal'', JBool False)]\<rparr>)"
      by (simp add: extends_def worker_error_def no_update_def roles_def)
    with Pair Inl show ?thesis by (simp add: coder_node_def)
  next
    case (Inr u)
    with Pair show ?thesis
      by (simp add: coder_node_def coder_body_extends)
  qed
qed

lemma extends_merge:
  assumes "extends state u"
  shows "prefix (get_or (tool_results state) []) (get_or (tool_results (merge_update state u)) [])
       \<and> prefix (get_or (memory state) []) (get_or (memory (merge_update state u)) [])
       \<and> get_or (iteration_count state) 0 \<le> get_or (iteration_count (merge_update state u)) 0
       \<and> (\<exists>s \<in> set roles. upd_next_step u = Some s \<and> next_step (merge_update state u) = Some s)"
  using assms
  by (auto simp: extends_def merge_update_def get_or_def split: option.splits)

lemma list_plus_item_fresh:
  "r < next_free h \<Longrightarrow>
   (case list_plus_item h (Some r) item of
      (res, h') \<Rightarrow>
        (\<forall>a < next_free h. cells h' a = cells h a)
        \<and> next_free h \<le> res
        \<and> cells h' res = Some (get_or (cells h r) [] @ [item]))"
  by (simp add: list_plus_item_def new_list_def Let_def get_or_def)

text \<open>
  C10. For each of the five nodes, folding the dictionary the node returns into the run
  state leaves the old \<open>tool_results\<close> and \<open>memory\<close> as a prefix of the new ones (they do
  not shrink and keep their order), does not decrease \<open>iteration_count\<close>, and sets
  \<open>next_step\<close> to one of supervisor, planner, researcher, coder, reviewer, FINISH.
  \<open>add_tool_result\<close> and \<open>add_memory\<close> return the prior list followed by exactly one
  new entry; as list objects, the sum is a new list and every list that existed before
  holds what it held.
\<close>

theorem run_state_growth:
  "((nm, node) \<in> set AGENT_NODES \<longrightarrow>
      (let u = fst (node E state w); state' = merge_update state u
       in prefix (get_or (tool_results state) []) (get_or (tool_results state') [])
        \<and> prefix (get_or (memory state) []) (get_or (memory state') [])
        \<and> get_or (iteration_count state) 0 \<le> get_or (iteration_count state') 0
        \<and> (\<exists>s \<in> set roles. upd_next_step u = Some s \<and> next_step state' = Some s)))
   \<and> add_tool_result state tool tool_input out ok ms stamp =
       get_or (tool_results state) [] @
         [\<lparr>tool_name = tool, input = tool_input, output_text = out, success = ok,
           execution_time_ms = ms, timestamp = stamp\<rparr>]
   \<and> add_memory state r c a stamp =
       get_or (memory state) [] @
         [\<lparr>mem_role = r, mem_content = c, mem_timestamp = stamp, mem_agent = a\<rparr>]
   \<and> (p < next_free h \<longrightarrow>
       (case list_plus_item h (Some p) item of
          (res, h') \<Rightarrow>
            (\<forall>a < next_free h. cells h' a = cells h a)
            \<and> next_free h \<le> res
            \<and> cells h' res = Some (get_or (cells h p) [] @ [item])))"
proof -
  have "extends state (fst (node E state w))" if "(nm, node) \<in> set AGENT_NODES"
    using that supervisor_extends planner_extends researcher_extends coder_extends
      reviewer_extends
    by (auto simp: AGENT_NODES_def)
  then show ?thesis
    using extends_merge [of state "fst (node E state w)"] list_plus_item_fresh [of p h item]
    by (simp add: Let_def add_tool_result_def add_memory_def)
qed


theorem run_state_growth_witness:
  "(''coder'', coder_node :: script env \<Rightarrow> agent_state \<Rightarrow> script \<Rightarrow> state_update \<times> script)
     \<in> set AGENT_NODES
   \<and> prefix (get_or (tool_results initial_state) [])
       (get_or (tool_results (merge_update initial_state
          (fst (coder_node (scripted_env demo_decoder) initial_state coder_script)))) [])
   \<and> get_or (tool_results (merge_update initial_state
        (fst (coder_node (scripted_env demo_decoder) initial_state coder_script)))) []
      = [\<lparr>tool_name = ''write_file'', input = write_action,
          output_text = ''Successfully wrote to a.py'', success = True,
          execution_time_ms = 0, timestamp = ''2024-01-01T00:00:00''\<rparr>]
   \<and> prefix (get_or (memory initial_state) [])
       (get_or (memory (merge_update initial_state
          (fst (coder_node (scripted_env demo_decoder) initial_state coder_script)))) [])
   \<and> next_step (merge_update initial_state
        (fst (coder_node (scripted_env demo_decoder) initial_state coder_script))) = Some ''supervisor''
   \<and> cells (snd (list_plus_item store0 (Some 0) 9)) 0 = Some [7, 8]
   \<and> cells (snd (list_plus_item store0 (Some 0) 9)) (fst (list_plus_item store0 (Some 0) 9))
       = Some [7, 8, 9]"
proof -
  have node: "(''coder'', coder_node :: script env \<Rightarrow> agent_state \<Rightarrow> script \<Rightarrow> state_update \<times> script)
     \<in> set AGENT_NODES"
    by (simp add: AGENT_NODES_def)
  have run: "get_or (tool_results (merge_update initial_state
        (fst (coder_node (scripted_env demo_decoder) initial_state coder_script)))) []
      = [\<lparr>tool_name = ''write_file'', input = write_action,
          output_text = ''Successfully wrote to a.py'', success = True,
          execution_time_ms = 0, timestamp = ''2024-01-01T00:00:00''\<rparr>]"
    by code_simp
  have step: "next_step (merge_update initial_state
        (fst (coder_node (scripted_env demo_decoder) initial_state coder_script))) = Some ''supervisor''"
    by code_simp
  have free: "(0::nat) < next_free store0"
    by (simp add: store0_def)
  note growth = run_state_growth [of "''coder''" coder_node "scripted_env demo_decoder"
      initial_state coder_script "''t''" "[]" "''o''" True 0 "''s''" "''r''" "''c''" None
      0 store0 9]
  from growth node have nodes:
    "prefix (get_or (tool_results initial_state) [])
       (get_or (tool_results (merge_update initial_state
          (fst (coder_node (scripted_env demo_decoder) initial_state coder_script)))) [])
     \<and> prefix (get_or (memory initial_state) [])
       (get_or (memory (merge_update initial_state
          (fst (coder_node (scripted_env demo_decoder) initial_state coder_script)))) [])"
    by (simp add: Let_def)
  from growth free have lists:
    "cells (snd (list_plus_item store0 (Some 0) 9)) 0 = Some [7, 8]
     \<and> cells (snd (list_plus_item store0 (Some 0) 9)) (fst (list_plus_item store0 (Some 0) 9))
       = Some [7, 8, 9]"
    by (simp add: store0_def get_or_def split: prod.splits)
  from node nodes run step lists show ?thesis
    by simp
qed

subsection \<open>Tool invocation gateway\<close>

definition logged ::
  "'w env \<Rightarrow> string \<Rightarrow> (string \<times> json) list \<Rightarrow> agent_state \<Rightarrow> 'w \<Rightarrow> 'w \<Rightarrow> string \<Rightarrow> bool
     \<Rightarrow> tool_result list" where
  \<comment> \<open>the log after a call that started in world \<open>w\<close> and whose tool left world \<open>w1\<close>:
      the prior log and one entry with the stored text, the flag, the duration between
      the two clock readings and the time stamp\<close>
  "logged E tool tool_input state w w1 stored ok =
     get_or (tool_results state) [] @
       [\<lparr>tool_name = tool, input = tool_input, output_text = stored, success = ok,
         execution_time_ms = (fst (time_time E w1) - fst (time_time E w)) * 1000,
         timestamp = fst (now_isoformat E (snd (time_time E w1)))\<rparr>]"

text \<open>
  C8. \<open>ToolExecutor.execute\<close> returns a result for every tool name and input and logs
  exactly one entry after the prior ones, with the tool name, the input, the duration
  and a time stamp. A name outside the registry gives the output "Unknown tool: name"
  and the flag false. When the tool raises, the exception is caught: the output and the
  stored text are "Tool execution error: " followed by the text of the exception, which
  is its own first 1000 characters when the text of the exception has at most 978, and
  the flag is false. Otherwise the flag is true exactly when the output does not begin
  with "Error:", and the stored text is the first 1000 characters of the output.
\<close>

theorem execute_gateway:
  "(tool \<notin> set AVAILABLE_TOOLS \<longrightarrow>
      fst (execute E tool tool_input state w) =
        (''Unknown tool: '' @ tool, False,
         logged E tool tool_input state w (snd (time_time E w))
           (take 1000 (''Unknown tool: '' @ tool)) False))
   \<and> (tool \<in> set AVAILABLE_TOOLS
        \<and> run_tool E tool tool_input (snd (time_time E w)) = (Inl e, w1) \<longrightarrow>
      fst (execute E tool tool_input state w) =
        (''Tool execution error: '' @ exc_str e, False,
         logged E tool tool_input state w w1 (''Tool execution error: '' @ exc_str e) False)
      \<and> (length (exc_str e) \<le> 978 \<longrightarrow>
           ''Tool execution error: '' @ exc_str e =
             take 1000 (''Tool execution error: '' @ exc_str e)))
   \<and> (tool \<in> set AVAILABLE_TOOLS
        \<and> run_tool E tool tool_input (snd (time_time E w)) = (Inr out, w1) \<longrightarrow>
      fst (execute E tool tool_input state w) =
        (out, \<not> startswith out ''Error:'',
         logged E tool tool_input state w w1 (take 1000 out) (\<not> startswith out ''Error:'')))"
  by (auto simp: execute_def logged_def add_tool_result_def Let_def split: prod.splits)


theorem execute_gateway_witness:
  "fst (execute (scripted_env demo_decoder) ''unknown_tool'' [] initial_state script0) =
     (''Unknown tool: unknown_tool'', False,
      [\<lparr>tool_name = ''unknown_tool'', input = [], output_text = ''Unknown tool: unknown_tool'',
        success = False, execution_time_ms = 0, timestamp = ''2024-01-01T00:00:00''\<rparr>])
   \<and> fst (execute (scripted_env demo_decoder) ''read_file'' [] initial_state script0) =
     (''Tool execution error: '' @ [CHR 0x27] @ ''path'' @ [CHR 0x27], False,
      [\<lparr>tool_name = ''read_file'', input = [],
        output_text = ''Tool execution error: '' @ [CHR 0x27] @ ''path'' @ [CHR 0x27],
        success = False, execution_time_ms = 0, timestamp = ''2024-01-01T00:00:00''\<rparr>])
   \<and> fst (execute (scripted_env demo_decoder) ''read_file'' [(''path'', JStr ''a.py'')] initial_state
          (script0\<lparr>tool_replies := [Inr ''Error: File a.py does not exist'']\<rparr>)) =
     (''Error: File a.py does not exist'', False,
      [\<lparr>tool_name = ''read_file'', input = [(''path'', JStr ''a.py'')],
        output_text = ''Error: File a.py does not exist'',
        success = False, execution_time_ms = 0, timestamp = ''2024-01-01T00:00:00''\<rparr>])"
proof -
  have unknown: "''unknown_tool'' \<notin> set AVAILABLE_TOOLS"
    by (simp add: AVAILABLE_TOOLS_def)
  have known: "''read_file'' \<in> set AVAILABLE_TOOLS"
    by (simp add: AVAILABLE_TOOLS_def)
  have raises: "run_tool (scripted_env demo_decoder) ''read_file'' []
        (snd (time_time (scripted_env demo_decoder) script0))
      = (Inl (PyExc KeyError ([CHR 0x27] @ ''path'' @ [CHR 0x27])), script0)"
    by (simp add: run_tool_def and_then_def pure_result_def dict_item_def scripted_env_def)
  have returns: "run_tool (scripted_env demo_decoder) ''read_file'' [(''path'', JStr ''a.py'')]
        (snd (time_time (scripted_env demo_decoder)
           (script0\<lparr>tool_replies := [Inr ''Error: File a.py does not exist'']\<rparr>)))
      = (Inr ''Error: File a.py does not exist'', script0\<lparr>tool_replies := []\<rparr>)"
    by (simp add: run_tool_def and_then_def pure_result_def dict_item_def scripted_env_def
        scripted_tool_def script0_def)
  note g1 = execute_gateway [of "''unknown_tool''" "scripted_env demo_decoder" "[]" initial_state
      script0 "PyExc KeyError []" script0 "[]"]
  note g2 = execute_gateway [of "''read_file''" "scripted_env demo_decoder" "[]" initial_state
      script0 "PyExc KeyError ([CHR 0x27] @ ''path'' @ [CHR 0x27])" script0 "[]"]
  note g3 = execute_gateway [of "''read_file''" "scripted_env demo_decoder"
      "[(''path'', JStr ''a.py'')]" initial_state
      "script0\<lparr>tool_replies := [Inr ''Error: File a.py does not exist'']\<rparr>" "PyExc KeyError []"
      "script0\<lparr>tool_replies := []\<rparr>" "''Error: File a.py does not exist''"]
  from g1 unknown have r1:
    "fst (execute (scripted_env demo_decoder) ''unknown_tool'' [] initial_state script0) =
       (''Unknown tool: unknown_tool'', False,
        logged (scripted_env demo_decoder) ''unknown_tool'' [] initial_state script0
          (snd (time_time (scripted_env demo_decoder) script0))
          (take 1000 (''Unknown tool: '' @ ''unknown_tool'')) False)"
    by simp
  from g2 known raises have r2:
    "fst (execute (scripted_env demo_decoder) ''read_file'' [] initial_state script0) =
       (''Tool execution error: '' @ [CHR 0x27] @ ''path'' @ [CHR 0x27], False,
        logged (scripted_env demo_decoder) ''read_file'' [] initial_state script0 script0
          (''Tool execution error: '' @ [CHR 0x27] @ ''path'' @ [CHR 0x27]) False)"
    by simp
  from g3 known returns have r3:
    "fst (execute (scripted_env demo_decoder) ''read_file'' [(''path'', JStr ''a.py'')] initial_state
          (script0\<lparr>tool_replies := [Inr ''Error: File a.py does not exist'']\<rparr>)) =
       (''Error: File a.py does not exist'', \<not> startswith ''Error: File a.py does not exist'' ''Error:'',
        logged (scripted_env demo_decoder) ''read_file'' [(''path'', JStr ''a.py'')] initial_state
          (script0\<lparr>tool_replies := [Inr ''Error: File a.py does not exist'']\<rparr>)
          (script0\<lparr>tool_replies := []\<rparr>)
          (take 1000 ''Error: File a.py does not exist'')
          (\<not> startswith ''Error: File a.py does not exist'' ''Error:''))"
    by simp
  show ?thesis
    unfolding r1 r2 r3
    by (simp add: logged_def scripted_env_def script0_def initial_state_def get_or_def
        startswith_def)
qed

subsection \<open>Response parser\<close>

lemma str_rfind_nonneg_iff: "0 \<le> str_rfind s sub \<longleftrightarrow> sublist sub s"
proof (induction s)
  case Nil
  then show ?case by simp
next
  case (Cons c cs)
  then show ?case
    by (auto simp: Let_def startswith_prefix sublist_Cons_right)
qed

lemma str_find_first:
  "pat \<noteq> [] \<Longrightarrow> \<not> sublist pat (a @ butlast pat) \<Longrightarrow>
   str_find (a @ pat @ b) pat = int (length a)"
proof (induction a)
  case Nil
  then obtain p ps where "pat = p # ps" by (cases pat) auto
  then show ?case by (simp add: startswith_def)
next
  case (Cons c a)
  have whole: "prefix ((c # a) @ butlast pat) (c # a @ pat @ b)"
  proof -
    have "pat @ b = butlast pat @ (last pat # b)"
      using Cons.prems(1) by simp
    then have "c # a @ pat @ b = ((c # a) @ butlast pat) @ (last pat # b)" by simp
    then show ?thesis unfolding prefix_def by blast
  qed
  have no: "\<not> startswith (c # a @ pat @ b) pat"
  proof
    assume "startswith (c # a @ pat @ b) pat"
    then have p: "prefix pat (c # a @ pat @ b)" by (simp add: startswith_prefix)
    have "length pat \<le> length ((c # a) @ butlast pat)"
      using Cons.prems(1) by simp
    from prefix_length_prefix [OF p whole this]
    have "sublist pat ((c # a) @ butlast pat)" by (rule prefix_imp_sublist)
    with Cons.prems(2) show False by simp
  qed
  have "\<not> sublist pat (a @ butlast pat)"
    using Cons.prems(2) by (auto simp: sublist_Cons_right)
  from Cons.IH [OF Cons.prems(1) this] no show ?case
    by (simp add: Let_def)
qed

lemma str_rfind_last:
  "pat \<noteq> [] \<Longrightarrow> \<not> sublist pat (tl pat @ b) \<Longrightarrow>
   str_rfind (a @ pat @ b) pat = int (length a)"
proof (induction a)
  case Nil
  then obtain p ps where pat: "pat = p # ps" by (cases pat) auto
  with Nil.prems(2) have "\<not> 0 \<le> str_rfind (ps @ b) (p # ps)"
    by (simp add: str_rfind_nonneg_iff)
  with pat show ?case by (simp add: Let_def startswith_def)
next
  case (Cons c a)
  from Cons.IH [OF Cons.prems] show ?case by (simp add: Let_def)
qed

lemma str_find_take:
  "pat \<noteq> [] \<Longrightarrow> 0 \<le> str_find s pat \<Longrightarrow> \<not> sublist pat (take (nat (str_find s pat)) s)"
proof (induction s)
  case Nil
  then show ?case by simp
next
  case (Cons c cs)
  show ?case
  proof (cases "startswith (c # cs) pat")
    case True
    with Cons.prems(1) show ?thesis by simp
  next
    case False
    with Cons.prems(2) have nn: "0 \<le> str_find cs pat"
      by (simp add: Let_def split: if_splits)
    from Cons.IH [OF Cons.prems(1) nn]
    have ih: "\<not> sublist pat (take (nat (str_find cs pat)) cs)" .
    have "\<not> prefix pat (c # take (nat (str_find cs pat)) cs)"
    proof
      assume "prefix pat (c # take (nat (str_find cs pat)) cs)"
      moreover have "prefix (c # take (nat (str_find cs pat)) cs) (c # cs)"
        by (simp add: take_is_prefix)
      ultimately have "prefix pat (c # cs)" by (rule prefix_order.trans)
      with False show False by (simp add: startswith_prefix)
    qed
    with ih False nn show ?thesis
      by (simp add: Let_def nat_add_distrib sublist_Cons_right)
  qed
qed

lemma str_split_nonempty: "str_split s sep \<noteq> []"
  by (subst str_split.simps) (simp add: Let_def)

lemma hd_str_split:
  "sep \<noteq> [] \<Longrightarrow>
   hd (str_split s sep) = (if str_find s sep < 0 then s else take (nat (str_find s sep)) s)"
  by (subst str_split.simps) (simp add: Let_def)

lemma hd_str_split_prefix: "prefix (hd (str_split s sep)) s"
  by (subst str_split.simps) (simp add: Let_def take_is_prefix)

lemma hd_str_split_free: "sep \<noteq> [] \<Longrightarrow> \<not> sublist sep (hd (str_split s sep))"
  using str_find_take [of sep s] str_find_nonneg_iff [of s sep]
  by (auto simp: hd_str_split)

lemma list_index_0: "xs \<noteq> [] \<Longrightarrow> list_index xs 0 = Inr (hd xs)"
  by (cases xs) (simp_all add: list_index_def)

lemma list_index_1_split:
  "sep \<noteq> [] \<Longrightarrow> 0 \<le> str_find s sep \<Longrightarrow>
   list_index (str_split s sep) 1 =
     Inr (hd (str_split (drop (nat (str_find s sep) + length sep) s) sep))"
proof -
  assume sep: "sep \<noteq> []" and nn: "0 \<le> str_find s sep"
  let ?rest = "str_split (drop (nat (str_find s sep) + length sep) s) sep"
  have "str_split s sep = take (nat (str_find s sep)) s # ?rest"
    using sep nn by (subst str_split.simps) (simp add: Let_def)
  moreover obtain x xs where "?rest = x # xs"
    using str_split_nonempty [of "drop (nat (str_find s sep) + length sep) s" sep]
    by (cases ?rest) auto
  ultimately show ?thesis by (simp add: list_index_def)
qed

lemma rstrip_Cons: "\<not> is_space x \<Longrightarrow> rstrip (x # t) = x # rstrip t"
  by (simp add: rstrip_def dropWhile_append3)

lemma rstrip_prefix: "prefix (rstrip s) s"
proof -
  have "suffix (dropWhile is_space (rev s)) (rev s)" by (rule suffix_dropWhile)
  then obtain zs where "rev s = zs @ dropWhile is_space (rev s)"
    unfolding suffix_def by blast
  then have "rev (rev s) = rev (zs @ dropWhile is_space (rev s))" by simp
  then have "s = rstrip s @ rev zs" by (simp add: rstrip_def)
  then show ?thesis unfolding prefix_def by blast
qed

lemma rstrip_id: "s \<noteq> [] \<Longrightarrow> \<not> is_space (last s) \<Longrightarrow> rstrip s = s"
proof -
  assume ne: "s \<noteq> []" and sp: "\<not> is_space (last s)"
  from ne obtain y ys where r: "rev s = y # ys" by (cases "rev s") auto
  have "hd (rev s) = last s" by (simp add: hd_rev)
  with r have "y = last s" by simp
  with sp have "dropWhile is_space (y # ys) = y # ys" by simp
  then have "dropWhile is_space (rev s) = rev s" unfolding r .
  then show ?thesis unfolding rstrip_def by simp
qed

lemma lstrip_id: "s = [] \<or> \<not> is_space (hd s) \<Longrightarrow> lstrip s = s"
  by (cases s) (auto simp: lstrip_def)

lemma strip_id: "s \<noteq> [] \<Longrightarrow> \<not> is_space (hd s) \<Longrightarrow> \<not> is_space (last s) \<Longrightarrow> strip s = s"
  by (simp add: strip_def lstrip_id rstrip_id)

lemma sublist_separator:
  assumes "x \<notin> set pat"
  shows "sublist pat (u @ x # v) \<longleftrightarrow> sublist pat u \<or> sublist pat v"
proof
  assume "sublist pat (u @ x # v)"
  then obtain ps ss where eq: "u @ x # v = ps @ pat @ ss"
    unfolding sublist_def by blast
  then consider us where "u = ps @ us" "us @ x # v = pat @ ss"
    | us where "u @ us = ps" "x # v = us @ pat @ ss"
    by (auto simp: append_eq_append_conv2)
  then show "sublist pat u \<or> sublist pat v"
  proof cases
    case 1
    from 1(2) consider us2 where "us = pat @ us2"
      | us2 where "us @ us2 = pat" "x # v = us2 @ ss"
      by (auto simp: append_eq_append_conv2)
    then show ?thesis
    proof cases
      case 1
      with \<open>u = ps @ us\<close> have "u = ps @ pat @ us2" by simp
      then show ?thesis unfolding sublist_def by blast
    next
      case 2
      show ?thesis
      proof (cases us2)
        case Nil
        with 2 \<open>u = ps @ us\<close> have "u = ps @ pat @ []" by simp
        then show ?thesis unfolding sublist_def by blast
      next
        case (Cons y ys)
        with 2 have "x \<in> set pat" by auto
        with assms show ?thesis by simp
      qed
    qed
  next
    case 2
    show ?thesis
    proof (cases us)
      case Nil
      with 2(2) have "x # v = pat @ ss" by simp
      with assms have "pat = []" by (cases pat) auto
      then show ?thesis by simp
    next
      case (Cons y ys)
      with 2(2) have "v = ys @ pat @ ss" by simp
      then show ?thesis unfolding sublist_def by blast
    qed
  qed
next
  assume "sublist pat u \<or> sublist pat v"
  then show "sublist pat (u @ x # v)"
  proof
    assume "sublist pat u"
    then obtain ps ss where "u = ps @ pat @ ss" unfolding sublist_def by blast
    then have "u @ x # v = ps @ pat @ (ss @ x # v)" by simp
    then show ?thesis unfolding sublist_def by blast
  next
    assume "sublist pat v"
    then obtain ps ss where "v = ps @ pat @ ss" unfolding sublist_def by blast
    then have "u @ x # v = (u @ x # ps) @ pat @ ss" by simp
    then show ?thesis unfolding sublist_def by blast
  qed
qed

lemma str_find_le_occurrence:
  "str_find (u @ pat @ v) pat \<le> int (length u)"
proof (induction u)
  case Nil
  show ?case
  proof (cases "pat @ v")
    case Nil
    then show ?thesis by simp
  next
    case (Cons c cs)
    have "startswith (pat @ v) pat" by (simp add: startswith_def)
    with Cons show ?thesis by simp
  qed
next
  case (Cons c u)
  then show ?case by (simp add: Let_def)
qed


lemma is_space_chars [simp]:
  "is_space (CHR 0x0A)" "\<not> is_space (CHR ''{'')" "\<not> is_space (CHR ''}'')"
  "\<not> is_space (CHR 0x60)" "\<not> is_space (CHR ''j'')"
  by (simp_all add: is_space_def)

lemma strip_object_text:
  assumes "s = CHR ''{'' # t" and "last s = CHR ''}''"
  shows "strip s = s"
  using assms by (intro strip_id) auto

lemma strip_between_newlines:
  assumes "s \<noteq> []" and "\<not> is_space (hd s)" and "\<not> is_space (last s)"
  shows "strip (CHR 0x0A # s @ [CHR 0x0A]) = s"
proof -
  from assms(1) obtain y ys where s: "s = y # ys" by (cases s) auto
  with assms(2) have "lstrip (CHR 0x0A # s @ [CHR 0x0A]) = s @ [CHR 0x0A]"
    by (simp add: lstrip_def)
  moreover have "rstrip (s @ [CHR 0x0A]) = rstrip s"
    by (simp add: rstrip_def)
  moreover have "rstrip s = s"
    using assms(1,3) by (rule rstrip_id)
  ultimately show ?thesis by (simp add: strip_def)
qed

lemma strip_cut_prefix:
  assumes s: "s = CHR ''{'' # t" and q: "strict_prefix q s"
  shows "strict_prefix (strip (CHR 0x0A # q)) s"
proof -
  have "q = [] \<or> \<not> is_space (hd q)"
  proof (cases q)
    case Nil
    then show ?thesis by simp
  next
    case (Cons y ys)
    with q s have "y = CHR ''{''" by (auto simp: strict_prefix_def)
    with Cons show ?thesis by simp
  qed
  then have "lstrip q = q" by (rule lstrip_id)
  then have "strip (CHR 0x0A # q) = rstrip q"
    by (simp add: strip_def lstrip_def)
  moreover have "prefix (rstrip q) q" by (rule rstrip_prefix)
  ultimately show ?thesis
    using q by (metis prefix_order.le_less_trans)
qed

lemma strip_keeps_head:
  assumes "\<not> is_space x"
  shows "\<exists>ys. strip (x # xs) = x # ys"
  using assms by (simp add: strip_def lstrip_def rstrip_Cons)

lemma list_index_Suc0_split:
  "sep \<noteq> [] \<Longrightarrow> 0 \<le> str_find s sep \<Longrightarrow>
   list_index (str_split s sep) (Suc 0) =
     Inr (hd (str_split (drop (nat (str_find s sep) + length sep) s) sep))"
  using list_index_1_split [of sep s] by simp

lemma fenced_split_json:
  "list_index (str_split (json_fenced s) ''```json'') (Suc 0) =
     Inr (hd (str_split (CHR 0x0A # s @ [CHR 0x0A] @ ''```'') ''```json''))"
proof -
  have f: "str_find (json_fenced s) ''```json'' = 0"
    by (simp add: json_fenced_def startswith_def)
  have d: "drop (nat 0 + length ''```json'') (json_fenced s) = CHR 0x0A # s @ [CHR 0x0A] @ ''```''"
    by (simp add: json_fenced_def)
  have step: "list_index (str_split (json_fenced s) ''```json'') (Suc 0) =
      Inr (hd (str_split (drop (nat (str_find (json_fenced s) ''```json'') + length ''```json'')
         (json_fenced s)) ''```json''))"
    by (rule list_index_Suc0_split) (simp_all add: f)
  show ?thesis unfolding step f d by (rule refl)
qed

lemma fenced_split_plain:
  "list_index (str_split (json_fenced s) ''```'') (Suc 0) =
     Inr (hd (str_split (''json'' @ CHR 0x0A # s @ [CHR 0x0A] @ ''```'') ''```''))"
proof -
  have f: "str_find (json_fenced s) ''```'' = 0"
    by (simp add: json_fenced_def startswith_def)
  have d: "drop (nat 0 + length ''```'') (json_fenced s) = ''json'' @ CHR 0x0A # s @ [CHR 0x0A] @ ''```''"
    by (simp add: json_fenced_def)
  have step: "list_index (str_split (json_fenced s) ''```'') (Suc 0) =
      Inr (hd (str_split (drop (nat (str_find (json_fenced s) ''```'') + length ''```'')
         (json_fenced s)) ''```''))"
    by (rule list_index_Suc0_split) (simp_all add: f)
  show ?thesis unfolding step f d by (rule refl)
qed

text \<open>the text cut out of the tagged block is a prefix of the rest without a fence\<close>

lemma fenced_text_json:
  "\<exists>piece. fenced_text (json_fenced s) ''```json'' = Inr (strip piece)
     \<and> prefix piece (CHR 0x0A # s @ [CHR 0x0A] @ ''```'')
     \<and> \<not> sublist ''```'' piece
     \<and> (\<not> sublist ''```json'' (CHR 0x0A # s @ [CHR 0x0A] @ ''```'') \<longrightarrow>
          piece = hd (str_split (CHR 0x0A # s @ [CHR 0x0A] @ ''```'') ''```''))"
proof -
  let ?r = "CHR 0x0A # s @ [CHR 0x0A] @ ''```''"
  let ?p1 = "hd (str_split ?r ''```json'')"
  let ?p2 = "hd (str_split ?p1 ''```'')"
  have "fenced_text (json_fenced s) ''```json'' = Inr (strip ?p2)"
    unfolding fenced_text_def One_nat_def fenced_split_json
    by (simp add: list_index_0 str_split_nonempty)
  moreover have "prefix ?p2 ?r"
    using hd_str_split_prefix [of ?p1 "''```''"] hd_str_split_prefix [of ?r "''```json''"]
    by (rule prefix_order.trans)
  moreover have "\<not> sublist ''```'' ?p2"
    by (rule hd_str_split_free) simp
  moreover have "?p1 = ?r" if "\<not> sublist ''```json'' ?r"
    using that by (simp add: hd_str_split str_find_nonneg_iff [symmetric])
  ultimately show ?thesis by auto
qed

lemma fenced_text_plain:
  "\<exists>piece. fenced_text (json_fenced s) ''```'' = Inr (strip piece)
     \<and> prefix piece (''json'' @ CHR 0x0A # s @ [CHR 0x0A] @ ''```'')"
proof -
  let ?r = "''json'' @ CHR 0x0A # s @ [CHR 0x0A] @ ''```''"
  let ?p1 = "hd (str_split ?r ''```'')"
  let ?p2 = "hd (str_split ?p1 ''```'')"
  have "fenced_text (json_fenced s) ''```'' = Inr (strip ?p2)"
    unfolding fenced_text_def One_nat_def fenced_split_plain
    by (simp add: list_index_0 str_split_nonempty)
  moreover have "prefix ?p2 ?r"
    using hd_str_split_prefix [of ?p1 "''```''"] hd_str_split_prefix [of ?r "''```''"]
    by (rule prefix_order.trans)
  ultimately show ?thesis by blast
qed

lemma fenced_plain_not_object:
  "\<exists>inner. fenced_text (json_fenced s) ''```'' = Inr inner \<and> \<not> startswith inner ''{''"
proof -
  from fenced_text_plain [of s] obtain piece where
    ft: "fenced_text (json_fenced s) ''```'' = Inr (strip piece)"
    and pre: "prefix piece (''json'' @ CHR 0x0A # s @ [CHR 0x0A] @ ''```'')"
    by blast
  have "\<not> startswith (strip piece) ''{''"
  proof (cases piece)
    case Nil
    then show ?thesis by (simp add: strip_def lstrip_def rstrip_def startswith_def)
  next
    case (Cons y ys)
    with pre have "y = CHR ''j''" by simp
    with Cons strip_keeps_head [of "CHR ''j''" ys] show ?thesis
      by (auto simp: startswith_def)
  qed
  with ft show ?thesis by blast
qed

lemma no_fence_in_two: "\<not> sublist ''```'' ''``''"
  by (auto dest: sublist_length_le)

text \<open>without a fence in the text, the tagged block gives the text back\<close>

lemma fenced_text_json_clean:
  assumes ne: "s \<noteq> []" and h: "\<not> is_space (hd s)" and l: "\<not> is_space (last s)"
    and clean: "\<not> sublist ''```'' s"
  shows "fenced_text (json_fenced s) ''```json'' = Inr s"
proof -
  let ?r = "CHR 0x0A # s @ [CHR 0x0A] @ ''```''"
  have first: "str_find ?r ''```'' = int (length (CHR 0x0A # s @ [CHR 0x0A]))"
  proof -
    have "\<not> sublist ''```'' (s @ CHR 0x0A # ''``'')"
      using clean no_fence_in_two by (subst sublist_separator) simp_all
    then have "\<not> sublist ''```'' ([] @ CHR 0x0A # s @ CHR 0x0A # ''``'')"
      by (subst sublist_separator) simp_all
    then have "\<not> sublist ''```'' ((CHR 0x0A # s @ [CHR 0x0A]) @ butlast ''```'')"
      by simp
    from str_find_first [OF _ this, of "[]"] show ?thesis by simp
  qed
  have nojson: "\<not> sublist ''```json'' ?r"
  proof
    assume "sublist ''```json'' ?r"
    then obtain u v where eq: "?r = u @ ''```json'' @ v" unfolding sublist_def by blast
    then have "?r = u @ ''```'' @ (''json'' @ v)" by simp
    with str_find_le_occurrence [of u "''```''" "''json'' @ v"]
    have "str_find ?r ''```'' \<le> int (length u)" by simp
    with first have "length s + 2 \<le> length u" by simp
    moreover from eq have "length ?r = length (u @ ''```json'' @ v)" by simp
    ultimately show False by simp
  qed
  from fenced_text_json [of s] nojson obtain piece where
    ft: "fenced_text (json_fenced s) ''```json'' = Inr (strip piece)"
    and piece: "piece = hd (str_split ?r ''```'')"
    by blast
  have "piece = take (nat (str_find ?r ''```'')) ?r"
    unfolding piece using first by (subst hd_str_split) simp_all
  also have "\<dots> = take (Suc (length s + 1)) ?r"
    unfolding first nat_int by simp
  also have "\<dots> = CHR 0x0A # s @ [CHR 0x0A]"
    by simp
  finally have "strip piece = s"
    using strip_between_newlines [OF ne h l] by simp
  with ft show ?thesis by simp
qed

text \<open>with a fence in the text, the tagged block gives a proper prefix of the text\<close>

lemma fenced_text_json_cut:
  assumes s: "s = CHR ''{'' # t" and fence: "sublist ''```'' s"
  shows "\<exists>p. fenced_text (json_fenced s) ''```json'' = Inr p \<and> strict_prefix p s"
proof -
  from fenced_text_json [of s] obtain piece where
    ft: "fenced_text (json_fenced s) ''```json'' = Inr (strip piece)"
    and pre: "prefix piece (CHR 0x0A # s @ [CHR 0x0A] @ ''```'')"
    and free: "\<not> sublist ''```'' piece"
    by blast
  have "strict_prefix (strip piece) s"
  proof (cases piece)
    case Nil
    with s show ?thesis by (simp add: strip_def lstrip_def rstrip_def)
  next
    case (Cons y q)
    with pre have y: "y = CHR 0x0A" and q: "prefix q (s @ [CHR 0x0A] @ ''```'')"
      by simp_all
    from q consider "prefix q s" | us where "q = s @ us"
      by (auto simp: prefix_append)
    then have "strict_prefix q s"
    proof cases
      case 1
      moreover have "q \<noteq> s"
        using free fence Cons by (auto simp: sublist_Cons_right)
      ultimately show ?thesis by (simp add: strict_prefix_def)
    next
      case 2
      from fence obtain a b where "s = a @ ''```'' @ b" unfolding sublist_def by blast
      with 2 Cons have "piece = (y # a) @ ''```'' @ (b @ us)" by simp
      then have "sublist ''```'' piece" unfolding sublist_def by blast
      with free show ?thesis by simp
    qed
    from strip_cut_prefix [OF s this] Cons y show ?thesis by simp
  qed
  with ft show ?thesis by blast
qed

lemma braces_slice:
  assumes s: "s = CHR ''{'' # t" and l: "last s = CHR ''}''"
  shows "str_find (json_fenced s) ''{'' = 8"
    and "str_rfind (json_fenced s) ''}'' = 7 + int (length s)"
    and "slice (json_fenced s) 8 (7 + int (length s) + 1) = s"
proof -
  have head: "\<not> sublist ''{'' ((''```json'' @ [CHR 0x0A]) @ butlast ''{'')"
    by (simp add: sublist_code)
  have "json_fenced s = (''```json'' @ [CHR 0x0A]) @ ''{'' @ (t @ [CHR 0x0A] @ ''```'')"
    using s by (simp add: json_fenced_def)
  with str_find_first [OF _ head, of "t @ [CHR 0x0A] @ ''```''"]
  show "str_find (json_fenced s) ''{'' = 8" by simp
  have tail: "\<not> sublist ''}'' (tl ''}'' @ [CHR 0x0A] @ ''```'')"
    by (simp add: sublist_code)
  from s l have "s = butlast s @ ''}''"
    by (metis append_butlast_last_id list.distinct(1))
  then have "json_fenced s = (''```json'' @ [CHR 0x0A] @ butlast s) @ ''}'' @ ([CHR 0x0A] @ ''```'')"
    by (simp add: json_fenced_def)
  with str_rfind_last [OF _ tail, of "''```json'' @ [CHR 0x0A] @ butlast s"]
  have "str_rfind (json_fenced s) ''}'' = int (length (''```json'' @ [CHR 0x0A] @ butlast s))"
    by simp
  with s show "str_rfind (json_fenced s) ''}'' = 7 + int (length s)"
    by simp
  show "slice (json_fenced s) 8 (7 + int (length s) + 1) = s"
    by (simp add: slice_def json_fenced_def nat_add_distrib)
qed

lemma json_fenced_outside:
  "strip (json_fenced s) = json_fenced s"
  "\<not> startswith (json_fenced s) ''{''"
  "contains (json_fenced s) ''```json''"
  "contains (json_fenced s) ''```''"
proof -
  have "json_fenced s \<noteq> []" "hd (json_fenced s) = CHR 0x60" "last (json_fenced s) = CHR 0x60"
    by (simp_all add: json_fenced_def)
  then show "strip (json_fenced s) = json_fenced s"
    by (intro strip_id) simp_all
  show "\<not> startswith (json_fenced s) ''{''"
    by (simp add: json_fenced_def startswith_def)
  show "contains (json_fenced s) ''```json''"
    by (simp add: json_fenced_def contains_def startswith_def)
  show "contains (json_fenced s) ''```''"
    by (simp add: json_fenced_def contains_def startswith_def)
qed


text \<open>
  C7. Round trip of the action parser. Let \<open>s\<close> be the serialization of a mapping \<open>m\<close>:
  the decoder gives \<open>m\<close> for \<open>s\<close>, \<open>s\<close> begins with an opening brace and ends with a
  closing brace, and the decoder rejects every proper prefix of \<open>s\<close> (all three hold of
  what \<open>json.dumps\<close> writes for a dict and of \<open>json.loads\<close>). Then \<open>parse_json_action\<close>
  returns \<open>m\<close> for \<open>s\<close> and for \<open>s\<close> inside a fenced block tagged json, also when \<open>s\<close>
  itself holds a fence.
\<close>

theorem parse_json_action_roundtrip:
  assumes dec: "loads s = Inr (JObj m)"
    and first: "startswith s ''{''"
    and final: "last s = CHR ''}''"
    and cut: "\<forall>p. strict_prefix p s \<longrightarrow> (\<exists>msg. loads p = Inl (PyExc JSONDecodeError msg))"
  shows "parse_json_action loads s = Inr (JObj m)
       \<and> parse_json_action loads (json_fenced s) = Inr (JObj m)"
proof
  from first obtain t where s: "s = CHR ''{'' # t"
    by (cases s) (auto simp: startswith_def)
  have bare: "strip s = s" using s final by (rule strip_object_text)
  show "parse_json_action loads s = Inr (JObj m)"
    by (simp add: parse_json_action_def bare first dec except_pass_def)
  have step1: "except_pass [JSONDecodeError]
        (if startswith (strip (json_fenced s)) ''{'' then Some (loads (strip (json_fenced s)))
         else None) = None"
    by (simp add: json_fenced_outside except_pass_def)
  show "parse_json_action loads (json_fenced s) = Inr (JObj m)"
  proof (cases "sublist ''```'' s")
    case False
    have "s \<noteq> []" "\<not> is_space (hd s)" "\<not> is_space (last s)"
      using s final by simp_all
    from fenced_text_json_clean [OF this False]
    have "fenced_text (json_fenced s) ''```json'' = Inr s" .
    then show ?thesis
      unfolding parse_json_action_def step1
      by (simp add: json_fenced_outside dec except_pass_def)
  next
    case True
    from fenced_text_json_cut [OF s True] obtain p where
      ft: "fenced_text (json_fenced s) ''```json'' = Inr p" and p: "strict_prefix p s"
      by blast
    from cut p obtain msg where "loads p = Inl (PyExc JSONDecodeError msg)" by blast
    with ft have step2: "(if contains (json_fenced s) ''```json'' then
              except_pass [IndexError, JSONDecodeError]
                (case fenced_text (json_fenced s) ''```json'' of
                   Inl e \<Rightarrow> Some (Inl e)
                 | Inr json_str \<Rightarrow> Some (loads json_str))
            else None) = None"
      by (simp add: json_fenced_outside except_pass_def)
    from fenced_plain_not_object [of s] obtain inner where
      "fenced_text (json_fenced s) ''```'' = Inr inner" and "\<not> startswith inner ''{''"
      by blast
    then have step3: "(if contains (json_fenced s) ''```'' then
              except_pass [IndexError, JSONDecodeError]
                (case fenced_text (json_fenced s) ''```'' of
                   Inl e \<Rightarrow> Some (Inl e)
                 | Inr json_str \<Rightarrow>
                     if startswith json_str ''{'' then Some (loads json_str) else None)
            else None) = None"
      by (simp add: json_fenced_outside except_pass_def)
    have sl: "slice (json_fenced s) 8 (8 + int (length s)) = s"
      using braces_slice(3) [OF s final] by (simp add: add.commute)
    have ne: "s \<noteq> []" using s by simp
    show ?thesis
      unfolding parse_json_action_def step1 step2 step3
      by (simp add: braces_slice(1,2) [OF s final] sl ne dec except_pass_def Let_def)
  qed
qed



lemma demo_decoder_rejects:
  "p \<noteq> write_action_text \<Longrightarrow> p \<noteq> fence_action_text \<Longrightarrow> p \<noteq> ''[1, 2]'' \<Longrightarrow>
   demo_decoder p = Inl (PyExc JSONDecodeError ''Expecting value'')"
  by (simp add: demo_decoder_def table_decoder_def)


theorem parse_json_action_roundtrip_witness:
  "parse_json_action demo_decoder write_action_text = Inr (JObj write_action)
   \<and> parse_json_action demo_decoder (json_fenced write_action_text) = Inr (JObj write_action)
   \<and> parse_json_action demo_decoder fence_action_text = Inr (JObj fence_action)
   \<and> parse_json_action demo_decoder (json_fenced fence_action_text) = Inr (JObj fence_action)"
proof -
  have w_dec: "demo_decoder write_action_text = Inr (JObj write_action)"
    by (simp add: demo_decoder_def table_decoder_def)
  have f_dec: "demo_decoder fence_action_text = Inr (JObj fence_action)"
    by (simp add: demo_decoder_def table_decoder_def write_action_text_def fence_action_text_def)
  have w_first: "startswith write_action_text ''{''"
    and w_final: "last write_action_text = CHR ''}''"
    by (simp_all add: write_action_text_def startswith_def)
  have f_first: "startswith fence_action_text ''{''"
    and f_final: "last fence_action_text = CHR ''}''"
    by (simp_all add: fence_action_text_def startswith_def)
  have apart: "\<not> prefix fence_action_text write_action_text"
    "\<not> prefix write_action_text fence_action_text"
    "\<not> prefix ''[1, 2]'' write_action_text" "\<not> prefix ''[1, 2]'' fence_action_text"
    by (simp_all add: write_action_text_def fence_action_text_def)
  have w_cut: "\<forall>p. strict_prefix p write_action_text \<longrightarrow>
      (\<exists>msg. demo_decoder p = Inl (PyExc JSONDecodeError msg))"
  proof (intro allI impI)
    fix p assume "strict_prefix p write_action_text"
    then have "p \<noteq> write_action_text" "prefix p write_action_text"
      by (simp_all add: strict_prefix_def)
    with apart have "p \<noteq> fence_action_text" "p \<noteq> ''[1, 2]''" by auto
    with \<open>p \<noteq> write_action_text\<close> show "\<exists>msg. demo_decoder p = Inl (PyExc JSONDecodeError msg)"
      by (auto simp: demo_decoder_rejects)
  qed
  have f_cut: "\<forall>p. strict_prefix p fence_action_text \<longrightarrow>
      (\<exists>msg. demo_decoder p = Inl (PyExc JSONDecodeError msg))"
  proof (intro allI impI)
    fix p assume "strict_prefix p fence_action_text"
    then have "p \<noteq> fence_action_text" "prefix p fence_action_text"
      by (simp_all add: strict_prefix_def)
    with apart have "p \<noteq> write_action_text" "p \<noteq> ''[1, 2]''" by auto
    with \<open>p \<noteq> fence_action_text\<close> show "\<exists>msg. demo_decoder p = Inl (PyExc JSONDecodeError msg)"
      by (auto simp: demo_decoder_rejects)
  qed
  from parse_json_action_roundtrip [OF w_dec w_first w_final w_cut]
    parse_json_action_roundtrip [OF f_dec f_first f_final f_cut]
  show ?thesis by simp
qed


text \<open>
  The parser raises nothing when the decoder raises only JSONDecodeError: each of the
  four attempts returns a value or falls through to the next, and the last resort is none.
\<close>

definition settled :: "(py_exception + json) option \<Rightarrow> bool" where
  \<comment> \<open>an attempt that falls through or returns a value, and does not raise\<close>
  "settled r = (case r of None \<Rightarrow> True | Some (Inr v) \<Rightarrow> True | Some (Inl e) \<Rightarrow> False)"

lemma settled_loads:
  assumes "\<forall>t e. loads t = Inl e \<longrightarrow> exc_class e = JSONDecodeError"
    and "JSONDecodeError \<in> set classes"
  shows "settled (except_pass classes (Some (loads t)))"
  using assms by (cases "loads t") (auto simp: except_pass_def settled_def)

lemma settled_None: "settled (except_pass classes None)"
  by (simp add: except_pass_def settled_def)

lemma fenced_text_raises:
  "fenced_text c tag = Inl e \<Longrightarrow> exc_class e = IndexError"
  by (auto simp: fenced_text_def list_index_def split: sum.splits if_splits)

lemma settled_index:
  "fenced_text c tag = Inl e \<Longrightarrow>
   settled (except_pass [IndexError, JSONDecodeError] (Some (Inl e)))"
  by (auto dest: fenced_text_raises simp: except_pass_def settled_def)

lemma settled_cases:
  "settled a \<Longrightarrow> settled b \<Longrightarrow> settled c \<Longrightarrow> settled d \<Longrightarrow>
   \<exists>v. (case a of Some r \<Rightarrow> r | None \<Rightarrow>
          (case b of Some r \<Rightarrow> r | None \<Rightarrow>
          (case c of Some r \<Rightarrow> r | None \<Rightarrow>
          (case d of Some r \<Rightarrow> r | None \<Rightarrow> Inr JNull)))) = Inr v"
  by (auto simp: settled_def split: option.splits sum.splits)

lemma parse_json_action_total:
  assumes "\<forall>t e. loads t = Inl e \<longrightarrow> exc_class e = JSONDecodeError"
  shows "\<exists>v. parse_json_action loads c = Inr v"
  unfolding parse_json_action_def
proof (rule settled_cases)
  show "settled (except_pass [JSONDecodeError]
      (if startswith (strip c) ''{'' then Some (loads (strip c)) else None))"
    by (simp add: settled_loads [OF assms] settled_None)
  show "settled (if contains c ''```json'' then
      except_pass [IndexError, JSONDecodeError]
        (case fenced_text c ''```json'' of
           Inl e \<Rightarrow> Some (Inl e)
         | Inr json_str \<Rightarrow> Some (loads json_str))
      else None)"
    by (cases "fenced_text c ''```json''")
       (simp_all add: settled_loads [OF assms] settled_index, simp_all add: settled_def)
  show "settled (if contains c ''```'' then
      except_pass [IndexError, JSONDecodeError]
        (case fenced_text c ''```'' of
           Inl e \<Rightarrow> Some (Inl e)
         | Inr json_str \<Rightarrow> if startswith json_str ''{'' then Some (loads json_str) else None)
      else None)"
    by (cases "fenced_text c ''```''")
       (simp_all add: settled_loads [OF assms] settled_index settled_None,
        simp_all add: settled_def)
  show "settled (except_pass [JSONDecodeError]
      (let start = str_find c ''{''; end = str_rfind c ''}'' + 1
       in if start \<ge> 0 \<and> end > start then Some (loads (slice c start end)) else None))"
    by (simp add: Let_def settled_loads [OF assms] settled_None)
qed

text \<open>
  C6. The action parser returns what the decoder gives for the text of a fenced block
  tagged json, whatever the value is: the branch of the tagged block does not check
  that the text begins with a brace, as the branch of the untagged block does. So a
  tagged block holding a JSON list makes the parser return the list, where the claim
  and the docstring of the function say none.
\<close>

theorem tagged_block_returns_decoded_value:
  assumes "text \<noteq> []" and "\<not> is_space (hd text)" and "\<not> is_space (last text)"
    and "\<not> sublist ''```'' text"
    and "loads text = Inr v"
  shows "parse_json_action loads (json_fenced text) = Inr v"
proof -
  have step1: "except_pass [JSONDecodeError]
        (if startswith (strip (json_fenced text)) ''{''
         then Some (loads (strip (json_fenced text))) else None) = None"
    by (simp add: json_fenced_outside except_pass_def)
  from fenced_text_json_clean [OF assms(1-4)]
  have "fenced_text (json_fenced text) ''```json'' = Inr text" .
  then show ?thesis
    unfolding parse_json_action_def step1
    by (simp add: json_fenced_outside assms(5) except_pass_def)
qed

theorem tagged_block_returns_decoded_value_witness:
  "parse_json_action demo_decoder (json_fenced ''[1, 2]'') = Inr (JArr [JInt 1, JInt 2])"
proof -
  have "\<not> sublist ''```'' ''[1, 2]''"
    by (simp add: sublist_code)
  moreover have "demo_decoder ''[1, 2]'' = Inr (JArr [JInt 1, JInt 2])"
    by (simp add: demo_decoder_def table_decoder_def write_action_text_def fence_action_text_def)
  ultimately show ?thesis
    by (intro tagged_block_returns_decoded_value) (simp_all add: is_space_def)
qed

subsection \<open>Exceptions inside the nodes\<close>

lemma and_then_Inl:
  "m w = (Inl e, w1) \<Longrightarrow> and_then m f w = (Inl e, w1)"
  by (simp add: and_then_def)

lemma worker_body_next_step:
  "planner_body E state w = (Inr u, w') \<Longrightarrow> upd_next_step u = Some ''supervisor''"
  "researcher_body E state w = (Inr u, w') \<Longrightarrow> upd_next_step u = Some ''supervisor''"
  "coder_body E state w = (Inr u, w') \<Longrightarrow> upd_next_step u = Some ''supervisor''"
  "reviewer_body E state w = (Inr u, w') \<Longrightarrow> upd_next_step u = Some ''supervisor''"
  unfolding planner_body_def researcher_body_def coder_body_def reviewer_body_def Let_def
  by (auto dest!: and_then_Inr simp: ret_def no_update_def split: prod.splits)

lemma worker_returns_to_supervisor:
  "upd_next_step (fst (planner_node E state w)) = Some ''supervisor''"
  "upd_next_step (fst (researcher_node E state w)) = Some ''supervisor''"
  "upd_next_step (fst (coder_node E state w)) = Some ''supervisor''"
  "upd_next_step (fst (reviewer_node E state w)) = Some ''supervisor''"
  by (auto simp: planner_node_def researcher_node_def coder_node_def reviewer_node_def
      worker_error_def no_update_def worker_body_next_step split: prod.splits sum.splits)

lemma supervisor_model_failure:
  assumes "get_or (iteration_count state) 0 < get_or (max_iterations state) 25"
    and "call_llm E (supervisor_messages E state) w = (Inl e, w1)"
  shows "supervisor_node E state w =
     (no_update\<lparr>upd_next_step := Some ''FINISH'',
                 upd_iteration_count := Some (get_or (iteration_count state) 0 + 1),
                 upd_error_context :=
                   Some [(''agent'', JStr ''supervisor''), (''error'', JStr (exc_str e)),
                         (''fatal'', JBool False)]\<rparr>, w1)"
  using assms by (simp add: supervisor_node_def Let_def)

lemma coder_model_failure:
  assumes "coder_body E state w = (Inl e, w1)"
  shows "fst (coder_node E state w) =
     no_update\<lparr>upd_messages := Some [AIMessage (''Implementation error: '' @ exc_str e)],
                upd_current_agent := Some ''coder'',
                upd_next_step := Some ''supervisor'',
                upd_error_context :=
                   Some [(''agent'', JStr ''coder''), (''error'', JStr (exc_str e)),
                         (''fatal'', JBool False)]\<rparr>"
  using assms by (simp add: coder_node_def worker_error_def)

lemma researcher_reviewer_error_without_error_context:
  "researcher_body E state w = (Inl e, w1) \<Longrightarrow>
     upd_error_context (fst (researcher_node E state w)) = None"
  "reviewer_body E state w = (Inl e, w1) \<Longrightarrow>
     upd_error_context (fst (reviewer_node E state w)) = None"
  by (simp_all add: researcher_node_def reviewer_node_def worker_error_def no_update_def)

text \<open>
  C3. A worker node returns to the supervisor on every path, and the supervisor, when
  the model call fails after the retries, returns FINISH, the count plus one and an
  error context whose fatal flag is false; so does the coder, with \<open>next_step\<close>
  supervisor. The planner does not: when its model call fails, the dictionary it returns
  holds the error message, the agent and \<open>next_step\<close>, and no \<open>error_context\<close>. The
  researcher and the reviewer return the same three keys.
\<close>

theorem planner_error_without_error_context:
  assumes "call_llm E ([SystemMessage (PLANNER_PROMPT E)] @ messages state) w = (Inl e, w1)"
  shows "planner_node E state w =
     (no_update\<lparr>upd_messages := Some [AIMessage (''Planning error: '' @ exc_str e)],
                 upd_current_agent := Some ''planner'',
                 upd_next_step := Some ''supervisor''\<rparr>, w1)
     \<and> upd_error_context (fst (planner_node E state w)) = None"
proof -
  from assms have "planner_body E state w = (Inl e, w1)"
    unfolding planner_body_def by (rule and_then_Inl)
  then show ?thesis
    by (simp add: planner_node_def worker_error_def no_update_def)
qed

theorem planner_error_without_error_context_witness:
  "planner_node (scripted_env no_decoder) initial_state
     (script0\<lparr>llm_replies := [boom ''first'', boom ''second'', boom ''third'']\<rparr>) =
     (no_update\<lparr>upd_messages := Some [AIMessage ''Planning error: third''],
                 upd_current_agent := Some ''planner'',
                 upd_next_step := Some ''supervisor''\<rparr>,
      script0\<lparr>llm_replies := [], slept := [1, 2], llm_calls := 3\<rparr>)
   \<and> upd_error_context (fst (planner_node (scripted_env no_decoder) initial_state
        (script0\<lparr>llm_replies := [boom ''first'', boom ''second'', boom ''third'']\<rparr>))) = None"
proof -
  have "call_llm (scripted_env no_decoder)
      ([SystemMessage (PLANNER_PROMPT (scripted_env no_decoder))] @ messages initial_state)
      (script0\<lparr>llm_replies := [boom ''first'', boom ''second'', boom ''third'']\<rparr>) =
    (Inl (PyExc (OtherError ''ConnectionError'') ''third''),
     script0\<lparr>llm_replies := [], slept := [1, 2], llm_calls := 3\<rparr>)"
    by (simp add: call_llm_def retry_with_backoff_def retry_attempts.simps scripted_env_def
        scripted_llm_def script0_def boom_def)
  from planner_error_without_error_context [OF this] show ?thesis
    by (simp add: no_update_def)
qed

end
